theory Spec2Isabelle
  imports Complex_Main "HOL-Library.Word"
begin

section \<open>JavaScript values used by the relay\<close>

text \<open>
  A JavaScript string is a \<^typ>\<open>string\<close>: a list of characters, whose \<open>length\<close> is the
  string's \<open>.length\<close>. A \<open>Buffer\<close> is a list of bytes. Counters and limits are natural
  numbers (the code only ever counts up from zero and compares).
\<close>

type_synonym Buffer = "8 word list"

text \<open>
  \<open>Array.prototype.slice\<close> and \<open>String.prototype.slice\<close>: a negative index counts from
  the end, and both indices are clamped to the length.
\<close>

definition clampIndex :: "int \<Rightarrow> nat \<Rightarrow> nat" where
  "clampIndex i len = (if i < 0 then nat (max (int len + i) 0) else min (nat i) len)"

definition slice_list :: "'a list \<Rightarrow> int \<Rightarrow> int \<Rightarrow> 'a list" where
  "slice_list xs start stop =
     (let a = clampIndex start (length xs); b = clampIndex stop (length xs)
      in take (b - a) (drop a xs))"

definition sliceFrom :: "'a list \<Rightarrow> int \<Rightarrow> 'a list" where
  "sliceFrom xs start = drop (clampIndex start (length xs)) xs"

definition endsWith :: "string \<Rightarrow> string \<Rightarrow> bool" where
  "endsWith s suffix =
     (length suffix \<le> length s \<and> drop (length s - length suffix) s = suffix)"

definition startsWith :: "string \<Rightarrow> string \<Rightarrow> bool" where
  "startsWith s p = (take (length p) s = p)"

definition includes_char :: "string \<Rightarrow> char \<Rightarrow> bool" where
  "includes_char s c = (c \<in> set s)"

text \<open>\<open>s.lastIndexOf(c)\<close> for a one-character needle: \<open>-1\<close> when \<open>c\<close> does not occur.\<close>

fun lastIndexOf_from :: "string \<Rightarrow> char \<Rightarrow> nat \<Rightarrow> int \<Rightarrow> int" where
  "lastIndexOf_from [] c i found = found"
| "lastIndexOf_from (x # xs) c i found =
     lastIndexOf_from xs c (Suc i) (if x = c then int i else found)"

definition lastIndexOf :: "string \<Rightarrow> char \<Rightarrow> int" where
  "lastIndexOf s c = lastIndexOf_from s c 0 (- 1)"

subsection \<open>Errors\<close>

text \<open>
  A thrown \<open>Error\<close> is identified by what built it: the three messages the relay itself
  composes, the two messages of yauzl's byte counter (\<open>too many bytes in the stream.
  expected N. got at least M\<close> and \<open>not enough bytes in the stream. expected N. got only
  M\<close>, with their two numbers), and any other error object (raised by yauzl, a stream,
  the file system or the AWS SDK), of which only the message is kept.
\<close>

datatype js_error =
    Error string
  | S3KeyEmpty
  | S3KeyTooLong nat
  | FilesFailedToUpload nat
  | TooManyBytes nat nat
  | NotEnoughBytes nat nat

text \<open>The static constructors of \<open>ZipError\<close>, \<open>S3Error\<close> and \<open>FileSystemError\<close>.\<close>

datatype ZipError =
    ZipError_corrupt string "js_error option"
  | ZipError_tooLarge string nat
  | ZipError_tooManyEntries string nat
  | ZipError_entryTooLarge string string nat
  | ZipError_extraction string "js_error option"

datatype S3Error = S3Error_put string string js_error

datatype FileSystemError =
    FileSystemError_list string js_error
  | FileSystemError_stat string js_error
  | FileSystemError_move string js_error
  | FileSystemError_delete string js_error

datatype AppError = ZipErr ZipError | FileSystemErr FileSystemError

section \<open>Archive extractor (archive/extractor.ts)\<close>

text \<open>
  What yauzl finds at a path. \<open>yauzl.open\<close> either fails, or gives a zip file whose
  \<open>readEntry\<close> produces the entries of the central directory one by one and then either
  the \<open>end\<close> event (\<open>None\<close>) or an \<open>error\<close> event. An entry carries the name and the
  uncompressed size its header declares, and what reading its data produces: the chunks
  of bytes that come out of the inflater (out of the file, for a stored entry), or an
  error of \<open>openReadStream\<close> or of the stream. The declared size and the number of bytes
  in the data are independent: a header can lie.
\<close>

record Entry =
  fileName :: string
  uncompressedSize :: nat
  inflated :: "js_error option + Buffer list"

text \<open>
  The relay opens the archive with \<open>{ lazyEntries: true }\<close> and no other option, so
  yauzl's option \<open>validateEntrySizes\<close> has its default, \<open>true\<close>, and the data of an entry
  reaches the relay through yauzl's \<open>AssertByteCountStream\<close>. Its \<open>_transform\<close> adds the
  length of each chunk to \<open>actualByteCount\<close> and fails the stream when the count is over
  \<open>expectedByteCount\<close>, the declared size; its \<open>_flush\<close> fails the stream when the
  count is below it at the end. (For a stored entry yauzl compares the two sizes of
  the header when it reads the entry, and emits an \<open>error\<close> event instead of the entry
  when they differ; the data of an entry it does emit has the declared size, which
  the counter lets through.)
\<close>

fun AssertByteCountStream :: "nat \<Rightarrow> nat \<Rightarrow> Buffer list \<Rightarrow> js_error + Buffer" where
  "AssertByteCountStream expectedByteCount actualByteCount [] =
     (if actualByteCount < expectedByteCount
      then Inl (NotEnoughBytes expectedByteCount actualByteCount)
      else Inr [])"
| "AssertByteCountStream expectedByteCount actualByteCount (chunk # chunks) =
     (let actualByteCount = actualByteCount + length chunk in
      if actualByteCount > expectedByteCount
      then Inl (TooManyBytes expectedByteCount actualByteCount)
      else (case AssertByteCountStream expectedByteCount actualByteCount chunks of
              Inl err \<Rightarrow> Inl err
            | Inr bytes \<Rightarrow> Inr (chunk @ bytes)))"

text \<open>
  What \<open>zipFile.openReadStream(entry, ...)\<close> followed by \<open>buffer(stream)\<close> delivers to
  the relay: the bytes of the entry, or the error that the callback or the stream
  reports.
\<close>

definition openReadStream :: "Entry \<Rightarrow> js_error option + Buffer" where
  "openReadStream entry =
     (case inflated entry of
        Inl err \<Rightarrow> Inl err
      | Inr chunks \<Rightarrow>
          (case AssertByteCountStream (uncompressedSize entry) 0 chunks of
             Inl err \<Rightarrow> Inl (Some err)
           | Inr bytes \<Rightarrow> Inr bytes))"

datatype ZipFile = OpenFailed "js_error option" | Opened "Entry list" "js_error option"

record ExtractedFile =
  name :: string
  content :: Buffer

text \<open>
  Several interfaces of the source share a field name (\<open>content\<close>, \<open>key\<close>, \<open>files\<close>,
  \<open>filesExtracted\<close>, ...). Where two records of this theory do, the field of the earlier
  one is written with its record's name: \<open>ExtractedFile.content\<close>.
\<close>

record ExtractOptions =
  maxEntries :: "nat option"
  maxEntrySize :: "nat option"
  maxTotalSize :: "nat option"

definition DEFAULT_MAX_ENTRIES :: nat where
  "DEFAULT_MAX_ENTRIES = 10000"

definition DEFAULT_MAX_ENTRY_SIZE :: nat where
  "DEFAULT_MAX_ENTRY_SIZE = 10 * 1024 * 1024"

definition DEFAULT_MAX_TOTAL_SIZE :: nat where
  "DEFAULT_MAX_TOTAL_SIZE = 200 * 1024 * 1024"

definition noOptions :: ExtractOptions where
  "noOptions = \<lparr>maxEntries = None, maxEntrySize = None, maxTotalSize = None\<rparr>"

text \<open>
  An async generator is modelled by what it produces when it is driven to its end: the
  items it yields, in order, and how it stops (\<open>None\<close>: it returns; \<open>Some e\<close>: it throws
  \<open>e\<close> after the last yield). The generator reads nothing its consumer writes, so a
  consumer that stops early sees a prefix of the items.

  \<open>extractZipStreaming_loop\<close> is the \<open>while (true)\<close> loop of \<open>extractZipStreaming\<close>, with
  \<open>entryCount\<close> the counter the loop keeps.
\<close>

fun extractZipStreaming_loop ::
  "string \<Rightarrow> nat \<Rightarrow> nat \<Rightarrow> nat \<Rightarrow> Entry list \<Rightarrow> js_error option
     \<Rightarrow> ExtractedFile list \<times> ZipError option" where
  "extractZipStreaming_loop zipPath maxE maxS entryCount [] ending =
     (case ending of
        None \<Rightarrow> ([], None)
      | Some err \<Rightarrow> ([], Some (ZipError_extraction zipPath (Some err))))"
| "extractZipStreaming_loop zipPath maxE maxS entryCount (entry # rest) ending =
     (if endsWith (fileName entry) ''/''
      then extractZipStreaming_loop zipPath maxE maxS entryCount rest ending
      else
        (let entryCount = entryCount + 1 in
         if entryCount > maxE then ([], Some (ZipError_tooManyEntries zipPath maxE))
         else if uncompressedSize entry > maxS
         then ([], Some (ZipError_entryTooLarge zipPath (fileName entry) maxS))
         else
           (case openReadStream entry of
              Inl err \<Rightarrow> ([], Some (ZipError_extraction zipPath err))
            | Inr bytes \<Rightarrow>
                if length bytes > maxS
                then ([], Some (ZipError_entryTooLarge zipPath (fileName entry) maxS))
                else
                  (let (ys, r) = extractZipStreaming_loop zipPath maxE maxS entryCount rest ending
                   in (\<lparr>name = fileName entry, content = bytes\<rparr> # ys, r)))))"

text \<open>\<open>options.maxEntries ?? DEFAULT_MAX_ENTRIES\<close>, and the same for the two sizes.\<close>

definition effectiveMaxEntries :: "ExtractOptions \<Rightarrow> nat" where
  "effectiveMaxEntries options =
     (case maxEntries options of None \<Rightarrow> DEFAULT_MAX_ENTRIES | Some n \<Rightarrow> n)"

definition effectiveMaxEntrySize :: "ExtractOptions \<Rightarrow> nat" where
  "effectiveMaxEntrySize options =
     (case maxEntrySize options of None \<Rightarrow> DEFAULT_MAX_ENTRY_SIZE | Some n \<Rightarrow> n)"

definition effectiveMaxTotalSize :: "ExtractOptions \<Rightarrow> nat" where
  "effectiveMaxTotalSize options =
     (case maxTotalSize options of None \<Rightarrow> DEFAULT_MAX_TOTAL_SIZE | Some n \<Rightarrow> n)"

definition extractZipStreaming ::
  "ZipFile \<Rightarrow> string \<Rightarrow> ExtractOptions \<Rightarrow> ExtractedFile list \<times> ZipError option" where
  "extractZipStreaming zf zipPath options =
     (let maxE = effectiveMaxEntries options;
          maxS = effectiveMaxEntrySize options
      in case zf of
           OpenFailed err \<Rightarrow> ([], Some (ZipError_corrupt zipPath err))
         | Opened entries ending \<Rightarrow> extractZipStreaming_loop zipPath maxE maxS 0 entries ending)"

text \<open>
  \<open>extractZip\<close> consumes the generator: the \<open>for await\<close> loop adds up the sizes and
  collects the files; when the items run out, the generator's own error, if any, is
  what the loop throws.
\<close>

fun extractZip_loop ::
  "string \<Rightarrow> nat \<Rightarrow> nat \<Rightarrow> ExtractedFile list \<Rightarrow> ExtractedFile list \<Rightarrow> ZipError option
     \<Rightarrow> ZipError + ExtractedFile list" where
  "extractZip_loop zipPath maxT totalSize files [] stop =
     (case stop of None \<Rightarrow> Inr files | Some err \<Rightarrow> Inl err)"
| "extractZip_loop zipPath maxT totalSize files (file # later) stop =
     (let totalSize = totalSize + length (ExtractedFile.content file) in
      if totalSize > maxT then Inl (ZipError_tooLarge zipPath maxT)
      else extractZip_loop zipPath maxT totalSize (files @ [file]) later stop)"

definition extractZip :: "ZipFile \<Rightarrow> string \<Rightarrow> ExtractOptions \<Rightarrow> ZipError + ExtractedFile list" where
  "extractZip zf zipPath options =
     (let maxT = effectiveMaxTotalSize options;
          (items, stop) = extractZipStreaming zf zipPath options
      in extractZip_loop zipPath maxT 0 [] items stop)"


section \<open>Branded types (types/branded.ts)\<close>

definition S3_KEY_MAX_LENGTH :: nat where
  "S3_KEY_MAX_LENGTH = 1024"

text \<open>\<open>part.replace(/^\/+|\/+$/g, '')\<close>: the leading and the trailing run of slashes go.\<close>

definition stripSlashes :: "string \<Rightarrow> string" where
  "stripSlashes part =
     rev (dropWhile (\<lambda>c. c = CHR ''/'') (rev (dropWhile (\<lambda>c. c = CHR ''/'') part)))"

fun join_with :: "string \<Rightarrow> string list \<Rightarrow> string" where
  "join_with sep [] = []"
| "join_with sep [x] = x"
| "join_with sep (x # y # ys) = x @ sep @ join_with sep (y # ys)"

definition joinS3Path :: "string list \<Rightarrow> string" where
  "joinS3Path parts =
     join_with ''/'' (filter (\<lambda>part. part \<noteq> [])
       (map stripSlashes (filter (\<lambda>part. part \<noteq> []) parts)))"

definition S3Prefix :: "string \<Rightarrow> string" where
  "S3Prefix v = (let normalised = stripSlashes v in if normalised \<noteq> [] then normalised @ ''/'' else [])"

text \<open>The checked constructors throw; \<open>Inl\<close> is the error thrown.\<close>

definition S3Key :: "string \<Rightarrow> js_error + string" where
  "S3Key v =
     (if v = [] then Inl S3KeyEmpty
      else if length v > S3_KEY_MAX_LENGTH then Inl (S3KeyTooLong (length v))
      else Inr v)"

definition FilePath :: "string \<Rightarrow> js_error + string" where
  "FilePath v = (if v = [] then Inl (Error ''File path cannot be empty'') else Inr v)"

section \<open>Content parser (content/parser.ts)\<close>

text \<open>
  The regular-expression engine is JavaScript's own and is a parameter. A compiled
  \<open>RegExp\<close> without the \<open>g\<close> and \<open>y\<close> flags is stateless: \<open>exec\<close> maps the content to
  \<open>null\<close> (\<open>None\<close>) or to the match array, whose element 0 is the whole match and whose
  element \<open>k\<close> is the \<open>k\<close>-th capture group, \<open>undefined\<close> (\<open>None\<close>) when the group did not
  take part; \<open>test\<close> says whether \<open>exec\<close> matches. \<open>new RegExp(pattern)\<close> throws on a
  pattern that is not a regular expression.
\<close>

type_synonym RegExpMatch = "string option list"
type_synonym RegExp = "string \<Rightarrow> RegExpMatch option"
type_synonym RegExp_new = "string \<Rightarrow> js_error + RegExp"

record ContentParser =
  extractFilename :: "string \<Rightarrow> string \<Rightarrow> string"
  shouldFilter :: "string \<Rightarrow> bool"

text \<open>\<open>pattern ? new RegExp(pattern) : undefined\<close>: \<open>undefined\<close> and the empty string are falsy.\<close>

definition regexOf :: "RegExp_new \<Rightarrow> string option \<Rightarrow> js_error + RegExp option" where
  "regexOf newRegExp pattern =
     (case pattern of
        None \<Rightarrow> Inr None
      | Some p \<Rightarrow>
          if p = [] then Inr None
          else (case newRegExp p of Inl err \<Rightarrow> Inl err | Inr re \<Rightarrow> Inr (Some re)))"

text \<open>\<open>match?.[1]\<close>: element 1 of the match array, \<open>undefined\<close> beyond its end.\<close>

definition group1 :: "RegExpMatch \<Rightarrow> string option" where
  "group1 m = (if 1 < length m then m ! 1 else None)"

definition createContentParser ::
  "RegExp_new \<Rightarrow> string option \<Rightarrow> string option \<Rightarrow> js_error + ContentParser" where
  "createContentParser newRegExp filenamePattern filterPattern =
     (case regexOf newRegExp filenamePattern of
        Inl err \<Rightarrow> Inl err
      | Inr filenameRegex \<Rightarrow>
          (case regexOf newRegExp filterPattern of
             Inl err \<Rightarrow> Inl err
           | Inr filterRegex \<Rightarrow>
               Inr \<lparr>extractFilename = (\<lambda>content fallbackName.
                       case filenameRegex of
                         None \<Rightarrow> fallbackName
                       | Some re \<Rightarrow>
                           (case re content of
                              None \<Rightarrow> fallbackName
                            | Some m \<Rightarrow>
                                (case group1 m of
                                   None \<Rightarrow> fallbackName
                                 | Some g \<Rightarrow> if g \<noteq> [] then g @ ''.xml'' else fallbackName))),
                    shouldFilter = (\<lambda>content.
                       case filterRegex of
                         None \<Rightarrow> False
                       | Some re \<Rightarrow> re content \<noteq> None)\<rparr>))"

section \<open>The outside world\<close>

text \<open>
  The collaborators the relay calls are parameters (\<open>env\<close>); what the relay does to them
  is recorded in the \<open>world\<close>, which every effectful function takes and returns.
  \<^item> \<open>uuid E n\<close> is what the \<open>n\<close>-th call of \<open>uuid()\<close> returns;
  \<^item> \<open>s3_send E n command\<close> is the outcome of the \<open>n\<close>-th \<open>PutObject\<close> sent: the
    \<open>ETag\<close> of the response (it may be \<open>undefined\<close>), or the rejection;
  \<^item> \<open>getRemainingTimeInMillis E n\<close> is what the \<open>n\<close>-th reading of the Lambda clock returns;
  \<^item> \<open>fs_apply E a\<close> is the error, if any, of a move or a delete in the file system;
  \<^item> \<open>fileAge E path\<close> is \<open>tryGetFileAgeMs\<close>: \<open>Date.now() - mtimeMs\<close>, or the \<open>stat\<close> error.
\<close>

record PutObjectCommand =
  Bucket :: string
  Key :: string
  Body :: Buffer
  ContentType :: string
  ContentMD5 :: string

datatype fs_action = MoveFile string string | DeleteFile string

record UploadSuccess =
  key :: string
  etag :: "string option"

record FileToUpload =
  key :: string
  content :: Buffer

record ZipListResult =
  files :: "string list"
  oldestAgeMs :: real

record Batch =
  prefix :: string
  files :: "FileToUpload list"

record env =
  uuid :: "nat \<Rightarrow> string"
  yauzl_open :: "string \<Rightarrow> ZipFile"
  toString_utf8 :: "Buffer \<Rightarrow> string"
  md5_base64 :: "Buffer \<Rightarrow> string"
  s3_send :: "nat \<Rightarrow> PutObjectCommand \<Rightarrow> js_error + string option"
  newRegExp :: RegExp_new
  fs_apply :: "fs_action \<Rightarrow> js_error option"
  getRemainingTimeInMillis :: "nat \<Rightarrow> int"
  readdir :: "string \<Rightarrow> js_error + string list"
  fileAge :: "string \<Rightarrow> js_error + real"
  path_join :: "string \<Rightarrow> string \<Rightarrow> string"

record world =
  uuid_calls :: nat
  s3_puts :: "PutObjectCommand list"
  handed_off :: "Batch list"
  clock_reads :: nat
  opened :: "string list"
  fs_log :: "fs_action list"

definition world0 :: world where
  "world0 = \<lparr>uuid_calls = 0, s3_puts = [], handed_off = [], clock_reads = 0, opened = [], fs_log = []\<rparr>"

section \<open>Batcher (upload/batcher.ts)\<close>

text \<open>
  The \<open>for\<close> loop of \<open>createBatches\<close>, with \<open>i\<close> its index and \<open>batches\<close> the array it
  pushes to. With \<open>batchSize = 0\<close> the index never advances and the loop does not return:
  the loop is a partial function, \<open>None\<close> where it runs forever.
\<close>

partial_function (option) createBatches_loop ::
  "env \<Rightarrow> FileToUpload list \<Rightarrow> string \<Rightarrow> nat \<Rightarrow> nat \<Rightarrow> Batch list \<Rightarrow> world
     \<Rightarrow> (Batch list \<times> world) option" where
  "createBatches_loop E fs prefixBase batchSize i batches w =
     (if i < length fs then
        (let batchFiles = slice_list fs (int i) (int (i + batchSize));
             p = S3Prefix (joinS3Path [prefixBase, uuid E (uuid_calls w)]);
             w' = w\<lparr>uuid_calls := uuid_calls w + 1\<rparr>
         in createBatches_loop E fs prefixBase batchSize (i + batchSize)
              (batches @ [\<lparr>prefix = p, files = batchFiles\<rparr>]) w')
      else Some (batches, w))"

definition createBatches ::
  "env \<Rightarrow> FileToUpload list \<Rightarrow> string \<Rightarrow> nat \<Rightarrow> world \<Rightarrow> (Batch list \<times> world) option" where
  "createBatches E fs prefixBase batchSize w = createBatches_loop E fs prefixBase batchSize 0 [] w"

section \<open>Result utilities (result/index.ts)\<close>

text \<open>A \<open>Result<T, E>\<close> is a sum: \<open>Inl\<close> the error, \<open>Inr\<close> the value.\<close>

fun partitionResults_loop :: "('e + 'a) list \<Rightarrow> 'a list \<Rightarrow> 'e list \<Rightarrow> 'a list \<times> 'e list" where
  "partitionResults_loop [] successes failures = (successes, failures)"
| "partitionResults_loop (result # results) successes failures =
     (case result of
        Inr v \<Rightarrow> partitionResults_loop results (successes @ [v]) failures
      | Inl err \<Rightarrow> partitionResults_loop results successes (failures @ [err]))"

text \<open>The values and the errors among a list of results, each in the order of the list.\<close>

fun valuesOf :: "('e + 'a) list \<Rightarrow> 'a list" where
  "valuesOf [] = []"
| "valuesOf (Inr v # rs) = v # valuesOf rs"
| "valuesOf (Inl err # rs) = valuesOf rs"

fun errorsOf :: "('e + 'a) list \<Rightarrow> 'e list" where
  "errorsOf [] = []"
| "errorsOf (Inr v # rs) = errorsOf rs"
| "errorsOf (Inl err # rs) = err # errorsOf rs"

definition partitionResults :: "('e + 'a) list \<Rightarrow> 'a list \<times> 'e list" where
  "partitionResults results = partitionResults_loop results [] []"

section \<open>Uploader (upload/uploader.ts)\<close>

definition UPLOAD_CONCURRENCY :: nat where
  "UPLOAD_CONCURRENCY = 10"

datatype BatchUploadResult =
    full_success string "UploadSuccess list"
  | partial_success string "UploadSuccess list" "S3Error list"

datatype upload_status = status_full_success | status_partial_success

fun status :: "BatchUploadResult \<Rightarrow> upload_status" where
  "status (full_success p ok) = status_full_success"
| "status (partial_success p ok bad) = status_partial_success"

fun successful :: "BatchUploadResult \<Rightarrow> UploadSuccess list" where
  "successful (full_success p ok) = ok"
| "successful (partial_success p ok bad) = ok"

definition putObjectCommand :: "env \<Rightarrow> string \<Rightarrow> string \<Rightarrow> Buffer \<Rightarrow> PutObjectCommand" where
  "putObjectCommand E bucket k body =
     (let contentMd5 = md5_base64 E body
      in \<lparr>Bucket = bucket, Key = k, Body = body,
          ContentType = ''application/xml'', ContentMD5 = contentMd5\<rparr>)"

definition tryUploadFile ::
  "env \<Rightarrow> string \<Rightarrow> string \<Rightarrow> Buffer \<Rightarrow> world \<Rightarrow> (S3Error + UploadSuccess) \<times> world" where
  "tryUploadFile E bucket k body w =
     (let command = putObjectCommand E bucket k body;
          w' = w\<lparr>s3_puts := s3_puts w @ [command]\<rparr>
      in case s3_send E (length (s3_puts w)) command of
           Inr ETag \<Rightarrow> (Inr \<lparr>UploadSuccess.key = k, etag = ETag\<rparr>, w')
         | Inl cause \<Rightarrow> (Inl (S3Error_put bucket k cause), w'))"

text \<open>
  \<open>Promise.all(chunk.map(file => tryUploadFile(...).toPromise()))\<close>: the uploads of a
  chunk are started in the order of the chunk, none of the promises rejects, and the
  results come back in the order of the chunk.
\<close>

fun uploadChunk ::
  "env \<Rightarrow> string \<Rightarrow> FileToUpload list \<Rightarrow> world \<Rightarrow> (S3Error + UploadSuccess) list \<times> world" where
  "uploadChunk E bucket [] w = ([], w)"
| "uploadChunk E bucket (file # chunk) w =
     (let (r, w1) = tryUploadFile E bucket (key file) (content file) w;
          (rs, w2) = uploadChunk E bucket chunk w1
      in (r # rs, w2))"

text \<open>
  The \<open>for\<close> loop of \<open>uploadFilesInChunks\<close>; like the loop of \<open>createBatches\<close> it does not
  return for a step of zero.
\<close>

partial_function (option) uploadFilesInChunks_loop ::
  "env \<Rightarrow> string \<Rightarrow> FileToUpload list \<Rightarrow> nat \<Rightarrow> nat \<Rightarrow> (S3Error + UploadSuccess) list \<Rightarrow> world
     \<Rightarrow> ((S3Error + UploadSuccess) list \<times> world) option" where
  "uploadFilesInChunks_loop E bucket fs concurrency i results w =
     (if i < length fs then
        (let chunk = slice_list fs (int i) (int (i + concurrency));
             (chunkResults, w') = uploadChunk E bucket chunk w
         in uploadFilesInChunks_loop E bucket fs concurrency (i + concurrency)
              (results @ chunkResults) w')
      else Some (results, w))"

definition uploadFilesInChunks ::
  "env \<Rightarrow> string \<Rightarrow> FileToUpload list \<Rightarrow> nat \<Rightarrow> world
     \<Rightarrow> ((S3Error + UploadSuccess) list \<times> world) option" where
  "uploadFilesInChunks E bucket fs concurrency w =
     uploadFilesInChunks_loop E bucket fs concurrency 0 [] w"

text \<open>
  \<open>batch.files.map(file => ({ key: createS3Key(joinS3Path(batch.prefix, file.key)), ... }))\<close>:
  the first destination key that is not an S3 key throws, before anything is sent.
\<close>

fun filesToUpload_of :: "string \<Rightarrow> FileToUpload list \<Rightarrow> js_error + FileToUpload list" where
  "filesToUpload_of p [] = Inr []"
| "filesToUpload_of p (file # fs) =
     (case S3Key (joinS3Path [p, key file]) of
        Inl err \<Rightarrow> Inl err
      | Inr k \<Rightarrow>
          (case filesToUpload_of p fs of
             Inl err \<Rightarrow> Inl err
           | Inr rest \<Rightarrow> Inr (\<lparr>key = k, content = content file\<rparr> # rest)))"

text \<open>
  \<open>tryUploadBatch\<close> returns a \<open>BatchUploadResult\<close> (\<open>Inr\<close>) or throws (\<open>Inl\<close>; \<open>withSpan\<close>
  rethrows what its operation throws). The call is recorded in \<open>handed_off\<close>. The wave
  loop is run with the constant \<open>UPLOAD_CONCURRENCY\<close>, for which it returns
  (lemma \<open>uploadFilesInChunks_returns\<close> below), so \<open>the\<close> reads its result.
\<close>

definition tryUploadBatch ::
  "env \<Rightarrow> string \<Rightarrow> Batch \<Rightarrow> world \<Rightarrow> (js_error + BatchUploadResult) \<times> world" where
  "tryUploadBatch E bucket batch w0 =
     (let w = w0\<lparr>handed_off := handed_off w0 @ [batch]\<rparr> in
      case filesToUpload_of (prefix batch) (files batch) of
        Inl err \<Rightarrow> (Inl err, w)
      | Inr filesToUpload \<Rightarrow>
          (let (results, w') = the (uploadFilesInChunks E bucket filesToUpload UPLOAD_CONCURRENCY w);
               (successes, failures) = partitionResults results
           in if length failures > 0
              then (Inr (partial_success (prefix batch) successes failures), w')
              else (Inr (full_success (prefix batch) successes), w')))"

text \<open>
  The outcome of item \<open>j\<close> of a batch handed over in world \<open>w\<close>: its \<open>PutObject\<close> is
  request number \<open>length (s3_puts w) + j\<close>, and the store accepts it (the item is
  delivered) or rejects it with a cause. \<open>failedOutcomes\<close> are the failures a result
  carries: those of \<open>partial_success\<close>, none for \<open>full_success\<close>.
\<close>

definition itemOutcome :: "env \<Rightarrow> string \<Rightarrow> FileToUpload list \<Rightarrow> world \<Rightarrow> nat \<Rightarrow> S3Error + UploadSuccess" where
  "itemOutcome E bucket fs w j =
     (case s3_send E (length (s3_puts w) + j)
             (putObjectCommand E bucket (key (fs ! j)) (content (fs ! j))) of
        Inr ETag \<Rightarrow> Inr \<lparr>UploadSuccess.key = key (fs ! j), etag = ETag\<rparr>
      | Inl cause \<Rightarrow> Inl (S3Error_put bucket (key (fs ! j)) cause))"

definition delivered :: "env \<Rightarrow> string \<Rightarrow> FileToUpload list \<Rightarrow> world \<Rightarrow> nat \<Rightarrow> bool" where
  "delivered E bucket fs w j = (case itemOutcome E bucket fs w j of Inr v \<Rightarrow> True | Inl err \<Rightarrow> False)"

fun failedOutcomes :: "BatchUploadResult \<Rightarrow> S3Error list" where
  "failedOutcomes (full_success p ok) = []"
| "failedOutcomes (partial_success p ok bad) = bad"

section \<open>File router (routing/file_router.ts)\<close>

definition tryMoveFile :: "env \<Rightarrow> string \<Rightarrow> string \<Rightarrow> world \<Rightarrow> (FileSystemError + unit) \<times> world" where
  "tryMoveFile E sourcePath destinationDir w =
     (case fs_apply E (MoveFile sourcePath destinationDir) of
        None \<Rightarrow> Inr ()
      | Some cause \<Rightarrow> Inl (FileSystemError_move sourcePath cause),
      w\<lparr>fs_log := fs_log w @ [MoveFile sourcePath destinationDir]\<rparr>)"

definition tryDeleteFile :: "env \<Rightarrow> string \<Rightarrow> world \<Rightarrow> (FileSystemError + unit) \<times> world" where
  "tryDeleteFile E filePath w =
     (case fs_apply E (DeleteFile filePath) of
        None \<Rightarrow> Inr ()
      | Some cause \<Rightarrow> Inl (FileSystemError_delete filePath cause),
      w\<lparr>fs_log := fs_log w @ [DeleteFile filePath]\<rparr>)"

definition tryRouteFile ::
  "env \<Rightarrow> string \<Rightarrow> bool \<Rightarrow> string \<Rightarrow> string \<Rightarrow> bool \<Rightarrow> world \<Rightarrow> (FileSystemError + unit) \<times> world" where
  "tryRouteFile E sourcePath success archiveDir failedDir deleteOnSuccess w =
     (if success then
        (if deleteOnSuccess then tryDeleteFile E sourcePath w
         else tryMoveFile E sourcePath archiveDir w)
      else tryMoveFile E sourcePath failedDir w)"

section \<open>Archive processor and orchestrator (index.ts)\<close>

text \<open>
  The configuration, without the two fields that only build the S3 client
  (\<open>s3EndpointUrl\<close>, \<open>s3Region\<close>).
\<close>

record Config =
  sourceDir :: string
  archiveDir :: string
  failedDir :: string
  destinationBucket :: string
  s3PrefixBase :: string
  batchSize :: nat
  maxFilesPerInvocation :: nat
  timeoutBufferMs :: int
  minFileAgeMs :: int
  filenamePattern :: "string option"
  filterPattern :: "string option"
  deleteOnSuccess :: bool

record ZipSuccess =
  zipPath :: string
  filesExtracted :: nat
  filesUploaded :: nat
  filesFiltered :: nat

record ZipFailure = ZipSuccess +
  error :: AppError

record BatchResult =
  zipsProcessed :: nat
  zipsFailed :: nat
  totalFilesUploaded :: nat
  totalFilesFailed :: nat
  totalFilesFiltered :: nat
  successes :: "ZipSuccess list"
  failures :: "ZipFailure list"
  stoppedEarly :: bool

text \<open>The variables \<open>tryProcessZipFile\<close> declares and its closure \<open>flushBatch\<close> shares.\<close>

record locals =
  filesExtracted :: nat
  filteredCount :: nat
  filesUploaded :: nat
  filesFailed :: nat
  usedFilenames :: "string set"
  currentBatch :: "FileToUpload list"
  currentBatchPrefix :: string

text \<open>
  What the \<open>catch\<close> clause of \<open>tryProcessZipFile\<close> receives: a \<open>ZipError\<close> (from the
  extractor) or another error (from \<open>S3Key\<close> or \<open>tryUploadBatch\<close>). A throw leaves the
  variables as they are at that moment, and the \<open>catch\<close> clause reads them.
\<close>

datatype caught = CaughtZipError ZipError | CaughtError js_error

definition flushBatch :: "env \<Rightarrow> Config \<Rightarrow> locals \<Rightarrow> world \<Rightarrow> ((caught \<times> locals) + locals) \<times> world" where
  "flushBatch E cfg st w =
     (if length (currentBatch st) = 0 then (Inr st, w)
      else
        (let batch = \<lparr>prefix = currentBatchPrefix st, files = currentBatch st\<rparr> in
         case tryUploadBatch E (destinationBucket cfg) batch w of
           (Inl err, w1) \<Rightarrow> (Inl (CaughtError err, st), w1)
         | (Inr result, w1) \<Rightarrow>
             (let st1 = st\<lparr>filesUploaded := filesUploaded st + length (successful result)\<rparr>;
                  st2 = (case result of
                           partial_success p ok bad \<Rightarrow>
                             st1\<lparr>filesFailed := filesFailed st1 + length bad\<rparr>
                         | full_success p ok \<Rightarrow> st1);
                  p = S3Prefix (joinS3Path [s3PrefixBase cfg, uuid E (uuid_calls w1)]);
                  w2 = w1\<lparr>uuid_calls := uuid_calls w1 + 1\<rparr>
              in (Inr (st2\<lparr>currentBatch := [], currentBatchPrefix := p\<rparr>), w2))))"

text \<open>
  Lines 191 to 197 of \<open>tryProcessZipFile\<close>: a name already in \<open>usedFilenames\<close> gets
  \<open>-\<close> and the first eight characters of a fresh \<open>uuid()\<close> before its last \<open>.\<close>, or at
  its end when it has no \<open>.\<close>. The new name is not looked up again.
\<close>

definition dedupe :: "env \<Rightarrow> string \<Rightarrow> locals \<Rightarrow> world \<Rightarrow> string \<times> world" where
  "dedupe E filename st w =
     (if filename \<in> usedFilenames st then
        (let ext = (if includes_char filename CHR ''.''
                    then sliceFrom filename (lastIndexOf filename CHR ''.'') else []);
             base = (if includes_char filename CHR ''.''
                     then slice_list filename 0 (lastIndexOf filename CHR ''.'') else filename)
         in (base @ ''-'' @ slice_list (uuid E (uuid_calls w)) 0 8 @ ext,
             w\<lparr>uuid_calls := uuid_calls w + 1\<rparr>))
      else (filename, w))"

text \<open>The body of the \<open>for await\<close> loop, for one extracted file.\<close>

definition processFile ::
  "env \<Rightarrow> Config \<Rightarrow> ContentParser \<Rightarrow> ExtractedFile \<Rightarrow> locals \<Rightarrow> world
     \<Rightarrow> ((caught \<times> locals) + locals) \<times> world" where
  "processFile E cfg parser file st0 w0 =
     (let st = st0\<lparr>filesExtracted := filesExtracted st0 + 1\<rparr>;
          text = toString_utf8 E (ExtractedFile.content file)
      in if shouldFilter parser text then (Inr (st\<lparr>filteredCount := filteredCount st + 1\<rparr>), w0)
         else
           (let (filename, w) = dedupe E (extractFilename parser text (name file)) st w0;
                st = st\<lparr>usedFilenames := insert filename (usedFilenames st)\<rparr>
            in case S3Key filename of
                 Inl err \<Rightarrow> (Inl (CaughtError err, st), w)
               | Inr k \<Rightarrow>
                   (let st = st\<lparr>currentBatch :=
                                  currentBatch st @ [\<lparr>key = k, content = ExtractedFile.content file\<rparr>]\<rparr>
                    in if length (currentBatch st) \<ge> batchSize cfg then flushBatch E cfg st w
                       else (Inr st, w))))"

text \<open>The \<open>for await\<close> loop over what the generator yields, then the generator's own end.\<close>

fun processFiles ::
  "env \<Rightarrow> Config \<Rightarrow> ContentParser \<Rightarrow> ExtractedFile list \<Rightarrow> ZipError option \<Rightarrow> locals \<Rightarrow> world
     \<Rightarrow> ((caught \<times> locals) + locals) \<times> world" where
  "processFiles E cfg parser [] stop st w =
     (case stop of None \<Rightarrow> (Inr st, w) | Some err \<Rightarrow> (Inl (CaughtZipError err, st), w))"
| "processFiles E cfg parser (file # rest) stop st w =
     (case processFile E cfg parser file st w of
        (Inl thrown, w') \<Rightarrow> (Inl thrown, w')
      | (Inr st', w') \<Rightarrow> processFiles E cfg parser rest stop st' w')"

text \<open>The variables as \<open>tryProcessZipFile\<close> initialises them; the first prefix takes a \<open>uuid()\<close>.\<close>

definition initialLocals :: "env \<Rightarrow> Config \<Rightarrow> world \<Rightarrow> locals" where
  "initialLocals E cfg w =
     \<lparr>filesExtracted = 0, filteredCount = 0, filesUploaded = 0, filesFailed = 0,
      usedFilenames = {}, currentBatch = [],
      currentBatchPrefix = S3Prefix (joinS3Path [s3PrefixBase cfg, uuid E (uuid_calls w)])\<rparr>"

definition tryProcessZipFile ::
  "env \<Rightarrow> string \<Rightarrow> Config \<Rightarrow> ContentParser \<Rightarrow> world \<Rightarrow> (ZipFailure + ZipSuccess) \<times> world" where
  "tryProcessZipFile E zp cfg parser w0 =
     (let st0 = initialLocals E cfg w0;
          w1 = w0\<lparr>uuid_calls := uuid_calls w0 + 1\<rparr>;
          (items, stop) = extractZipStreaming (yauzl_open E zp) zp noOptions;
          w2 = w1\<lparr>opened := opened w1 @ [zp]\<rparr>;
          (looped, w3) = processFiles E cfg parser items stop st0 w2;
          (flushed, w4) = (case looped of
                             Inl thrown \<Rightarrow> (Inl thrown, w3)
                           | Inr st \<Rightarrow> flushBatch E cfg st w3)
      in case flushed of
           Inr st \<Rightarrow>
             (let allSucceeded = (filesFailed st = 0 \<and> filesUploaded st > 0);
                  (routeResult, w5) = tryRouteFile E zp allSucceeded
                                        (archiveDir cfg) (failedDir cfg) (deleteOnSuccess cfg) w4
              in if filesFailed st > 0 then
                   (Inl \<lparr>zipPath = zp, ZipSuccess.filesExtracted = filesExtracted st,
                         ZipSuccess.filesUploaded = filesUploaded st, filesFiltered = filteredCount st,
                         error = ZipErr (ZipError_extraction zp
                                   (Some (FilesFailedToUpload (filesFailed st))))\<rparr>, w5)
                 else
                   (Inr \<lparr>zipPath = zp, ZipSuccess.filesExtracted = filesExtracted st,
                         ZipSuccess.filesUploaded = filesUploaded st, filesFiltered = filteredCount st\<rparr>, w5))
         | Inl (thrown, st) \<Rightarrow>
             (let zipError = (case thrown of
                                CaughtZipError e \<Rightarrow> e
                              | CaughtError e \<Rightarrow> ZipError_extraction zp (Some e));
                  (routeResult, w5) = tryRouteFile E zp False
                                        (archiveDir cfg) (failedDir cfg) (deleteOnSuccess cfg) w4
              in (Inl \<lparr>zipPath = zp, ZipSuccess.filesExtracted = filesExtracted st,
                       ZipSuccess.filesUploaded = filesUploaded st, filesFiltered = filteredCount st,
                       error = ZipErr zipError\<rparr>, w5)))"

definition isValidZipFile :: "string \<Rightarrow> bool" where
  "isValidZipFile filename = (endsWith filename ''.zip'' \<and> \<not> startsWith filename ''.'')"

text \<open>
  The \<open>for\<close> loop of \<open>tryListZipFiles\<close> over the zip names, with \<open>readyFiles\<close> and
  \<open>oldestAgeMs\<close> the variables it updates. \<open>FilePath(join(directory, zipFile))\<close> is outside
  any \<open>try\<close>: if it throws, the error leaves \<open>tryListZipFiles\<close> (\<open>Inl\<close>).
\<close>

fun tryListZipFiles_loop ::
  "env \<Rightarrow> string \<Rightarrow> int \<Rightarrow> string list \<Rightarrow> string list \<Rightarrow> real \<Rightarrow> js_error + ZipListResult" where
  "tryListZipFiles_loop E directory minAge [] readyFiles oldest =
     Inr \<lparr>ZipListResult.files = readyFiles, oldestAgeMs = oldest\<rparr>"
| "tryListZipFiles_loop E directory minAge (zipFile # rest) readyFiles oldest =
     (case FilePath (path_join E directory zipFile) of
        Inl err \<Rightarrow> Inl err
      | Inr zp \<Rightarrow>
          (case fileAge E zp of
             Inr age \<Rightarrow>
               (if minAge \<le> 0 \<or> age \<ge> real_of_int minAge
                then tryListZipFiles_loop E directory minAge rest (readyFiles @ [zipFile]) (max oldest age)
                else tryListZipFiles_loop E directory minAge rest readyFiles (max oldest age))
           | Inl cause \<Rightarrow>
               tryListZipFiles_loop E directory minAge rest (readyFiles @ [zipFile]) oldest))"

definition tryListZipFiles ::
  "env \<Rightarrow> string \<Rightarrow> int \<Rightarrow> js_error + (FileSystemError + ZipListResult)" where
  "tryListZipFiles E directory minAge =
     (case readdir E directory of
        Inl cause \<Rightarrow> Inr (Inl (FileSystemError_list directory cause))
      | Inr entries \<Rightarrow>
          (let zipFiles = filter isValidZipFile entries in
           if length zipFiles = 0 then Inr (Inr \<lparr>ZipListResult.files = [], oldestAgeMs = 0\<rparr>)
           else (case tryListZipFiles_loop E directory minAge zipFiles [] 0 of
                   Inl err \<Rightarrow> Inl err
                 | Inr listing \<Rightarrow> Inr (Inr listing))))"

text \<open>
  The \<open>for\<close> loop of \<open>processZips\<close> over \<open>zipFiles\<close>: it reads the clock, stops early
  (\<open>break\<close> with \<open>stoppedEarly = true\<close>) or processes the archive and files its result.
  It returns \<open>successes\<close>, \<open>failures\<close> and \<open>stoppedEarly\<close>.
\<close>

fun processZips_loop ::
  "env \<Rightarrow> Config \<Rightarrow> ContentParser \<Rightarrow> string list \<Rightarrow> ZipSuccess list \<Rightarrow> ZipFailure list \<Rightarrow> world
     \<Rightarrow> (js_error + ZipSuccess list \<times> ZipFailure list \<times> bool) \<times> world" where
  "processZips_loop E cfg parser [] ok bad w = (Inr (ok, bad, False), w)"
| "processZips_loop E cfg parser (zipFile # rest) ok bad w =
     (let remainingTime = getRemainingTimeInMillis E (clock_reads w);
          w1 = w\<lparr>clock_reads := clock_reads w + 1\<rparr>
      in if remainingTime < timeoutBufferMs cfg then (Inr (ok, bad, True), w1)
         else
           (case FilePath (path_join E (sourceDir cfg) zipFile) of
              Inl err \<Rightarrow> (Inl err, w1)
            | Inr zp \<Rightarrow>
                (case tryProcessZipFile E zp cfg parser w1 of
                   (Inr v, w2) \<Rightarrow> processZips_loop E cfg parser rest (ok @ [v]) bad w2
                 | (Inl f, w2) \<Rightarrow> processZips_loop E cfg parser rest ok (bad @ [f]) w2)))"

definition noResult :: "nat \<Rightarrow> ZipFailure list \<Rightarrow> BatchResult" where
  "noResult n fs =
     \<lparr>zipsProcessed = 0, zipsFailed = n, totalFilesUploaded = 0, totalFilesFailed = 0,
      totalFilesFiltered = 0, successes = [], failures = fs, stoppedEarly = False\<rparr>"

text \<open>
  \<open>processZips\<close> returns the \<open>BatchResult\<close> (\<open>Inr\<close>); it has no \<open>catch\<close>, so what
  \<open>createContentParser\<close> or \<open>FilePath\<close> throws leaves it (\<open>Inl\<close>).
\<close>

definition processZips :: "env \<Rightarrow> Config \<Rightarrow> world \<Rightarrow> (js_error + BatchResult) \<times> world" where
  "processZips E cfg w0 =
     (case createContentParser (newRegExp E) (filenamePattern cfg) (filterPattern cfg) of
        Inl err \<Rightarrow> (Inl err, w0)
      | Inr parser \<Rightarrow>
          (case tryListZipFiles E (sourceDir cfg) (minFileAgeMs cfg) of
             Inl err \<Rightarrow> (Inl err, w0)
           | Inr (Inl listError) \<Rightarrow>
               (case FilePath (sourceDir cfg) of
                  Inl err \<Rightarrow> (Inl err, w0)
                | Inr dir \<Rightarrow>
                    (Inr (noResult 1
                       [\<lparr>zipPath = dir, ZipSuccess.filesExtracted = 0, ZipSuccess.filesUploaded = 0,
                         filesFiltered = 0, error = FileSystemErr listError\<rparr>]), w0))
           | Inr (Inr listing) \<Rightarrow>
               (let allZipFiles = ZipListResult.files listing;
                    zipFiles = slice_list allZipFiles 0 (int (maxFilesPerInvocation cfg))
                in if length zipFiles = 0 then (Inr (noResult 0 []), w0)
                   else
                     (case processZips_loop E cfg parser zipFiles [] [] w0 of
                        (Inl err, w1) \<Rightarrow> (Inl err, w1)
                      | (Inr (ok, bad, stopped), w1) \<Rightarrow>
                          (Inr \<lparr>zipsProcessed = length ok,
                                zipsFailed = length bad,
                                totalFilesUploaded =
                                  fold (\<lambda>s sum. sum + ZipSuccess.filesUploaded s) ok 0 +
                                  fold (\<lambda>f sum. sum + ZipSuccess.filesUploaded f) bad 0,
                                totalFilesFailed = 0,
                                totalFilesFiltered =
                                  fold (\<lambda>s sum. sum + filesFiltered s) ok 0 +
                                  fold (\<lambda>f sum. sum + filesFiltered f) bad 0,
                                successes = ok,
                                failures = bad,
                                stoppedEarly = stopped\<rparr>, w1)))))"

section \<open>Notions the properties are stated with\<close>

text \<open>
  The results of attempting the given archive paths one after the other, each attempt
  preceded by one reading of the clock: what a run that is never stopped early
  produces for them, in their order.
\<close>

fun attempts ::
  "env \<Rightarrow> Config \<Rightarrow> ContentParser \<Rightarrow> string list \<Rightarrow> world \<Rightarrow> (ZipFailure + ZipSuccess) list" where
  "attempts E cfg parser [] w = []"
| "attempts E cfg parser (zp # rest) w =
     (let (r, w') = tryProcessZipFile E zp cfg parser (w\<lparr>clock_reads := clock_reads w + 1\<rparr>)
      in r # attempts E cfg parser rest w')"

text \<open>
  The files an archive attempt has given a name and a place in a batch so far: those of
  the batches handed to the uploader since the attempt began (when \<open>n\<close> batches had been
  handed over), then those of the pending batch.
\<close>

definition assignedSince :: "nat \<Rightarrow> world \<Rightarrow> locals \<Rightarrow> FileToUpload list" where
  "assignedSince n w st = concat (map files (drop n (handed_off w))) @ currentBatch st"

text \<open>The extracted files the parser keeps, and the name the parser proposes for a file.\<close>

definition kept :: "env \<Rightarrow> ContentParser \<Rightarrow> ExtractedFile \<Rightarrow> bool" where
  "kept E parser file = (\<not> shouldFilter parser (toString_utf8 E (ExtractedFile.content file)))"

definition candidateName :: "env \<Rightarrow> ContentParser \<Rightarrow> ExtractedFile \<Rightarrow> string" where
  "candidateName E parser file =
     extractFilename parser (toString_utf8 E (ExtractedFile.content file)) (name file)"

text \<open>
  The shape of what \<open>uuid()\<close> returns: 36 characters, lower-case hexadecimal digits in
  groups of 8, 4, 4, 4 and 12 separated by \<open>-\<close>.
\<close>

definition isHexDigit :: "char \<Rightarrow> bool" where
  "isHexDigit c = (c \<in> set ''0123456789abcdef'')"

definition isUuid :: "string \<Rightarrow> bool" where
  "isUuid s =
     (length s = 36 \<and>
      list_all isHexDigit (take 8 s) \<and> s ! 8 = CHR ''-'' \<and>
      list_all isHexDigit (take 4 (drop 9 s)) \<and> s ! 13 = CHR ''-'' \<and>
      list_all isHexDigit (take 4 (drop 14 s)) \<and> s ! 18 = CHR ''-'' \<and>
      list_all isHexDigit (take 4 (drop 19 s)) \<and> s ! 23 = CHR ''-'' \<and>
      list_all isHexDigit (drop 24 s))"

text \<open>
  Every disambiguated name generated while the loop of \<open>tryProcessZipFile\<close> runs over
  the given files, from the given state, was not in \<open>usedFilenames\<close> when it was
  generated.
\<close>

fun disambiguatorsFresh ::
  "env \<Rightarrow> Config \<Rightarrow> ContentParser \<Rightarrow> ExtractedFile list \<Rightarrow> locals \<Rightarrow> world \<Rightarrow> bool" where
  "disambiguatorsFresh E cfg parser [] st w = True"
| "disambiguatorsFresh E cfg parser (file # rest) st w =
     ((if kept E parser file \<and> candidateName E parser file \<in> usedFilenames st
       then fst (dedupe E (candidateName E parser file) st w) \<notin> usedFilenames st
       else True) \<and>
      (case processFile E cfg parser file st w of
         (Inr st', w') \<Rightarrow> disambiguatorsFresh E cfg parser rest st' w'
       | (Inl thrown, w') \<Rightarrow> True))"

text \<open>
  The same for a whole attempt on the archive at \<open>zp\<close>: every disambiguated name
  generated during the attempt was new when it was generated.
\<close>

definition attemptFresh :: "env \<Rightarrow> string \<Rightarrow> Config \<Rightarrow> ContentParser \<Rightarrow> world \<Rightarrow> bool" where
  "attemptFresh E zp cfg parser w0 =
     disambiguatorsFresh E cfg parser
       (fst (extractZipStreaming (yauzl_open E zp) zp noOptions))
       (initialLocals E cfg w0)
       (w0\<lparr>uuid_calls := uuid_calls w0 + 1, opened := opened w0 @ [zp]\<rparr>)"

text \<open>
  The names an archive attempt has given out so far, in the order it gave them, and the
  names of the files in the batches handed to the uploader since the attempt began.
\<close>

definition givenNames :: "nat \<Rightarrow> world \<Rightarrow> locals \<Rightarrow> string list" where
  "givenNames n w st = map key (assignedSince n w st)"

definition handedNames :: "nat \<Rightarrow> world \<Rightarrow> string list" where
  "handedNames n w = map key (concat (map files (drop n (handed_off w))))"

section \<open>An example environment\<close>

text \<open>
  A small concrete world for running the definitions: two UUIDs handed out in turn, a
  store that accepts every object, a file system that never fails, a clock with plenty
  of time left, and a stand-in for the regular-expression engine that knows one naming
  pattern and rejects one malformed pattern. Each example below changes the fields it
  is about.
\<close>

definition uuidA :: string where
  "uuidA = ''1234abcd-0000-4000-8000-000000000000''"

definition uuidB :: string where
  "uuidB = ''9f8e7d6c-1111-4111-9111-111111111111''"

definition exampleRegExp :: RegExp_new where
  "exampleRegExp pattern =
     (if pattern = ''<id>(.*?)</id>''
      then Inr (\<lambda>text. if text = ''<id>7</id>'' then Some [Some ''<id>7</id>'', Some ''7''] else None)
      else if pattern = ''(''
      then Inl (Error ''Invalid regular expression'')
      else Inr (\<lambda>text. None))"

definition exampleEnv :: env where
  "exampleEnv =
     \<lparr>uuid = (\<lambda>n. if even n then uuidA else uuidB),
      yauzl_open = (\<lambda>p. Opened [] None),
      toString_utf8 = (\<lambda>b. []),
      md5_base64 = (\<lambda>b. []),
      s3_send = (\<lambda>n command. Inr None),
      newRegExp = exampleRegExp,
      fs_apply = (\<lambda>a. None),
      getRemainingTimeInMillis = (\<lambda>n. 300000),
      readdir = (\<lambda>d. Inr []),
      fileAge = (\<lambda>p. Inr 60000),
      path_join = (\<lambda>d f. d @ ''/'' @ f)\<rparr>"

definition exampleConfig :: Config where
  "exampleConfig =
     \<lparr>sourceDir = ''/in'', archiveDir = ''/archived'', failedDir = ''/failed'',
      destinationBucket = ''bucket'', s3PrefixBase = ''uploads'', batchSize = 100,
      maxFilesPerInvocation = 1000, timeoutBufferMs = 60000, minFileAgeMs = 0,
      filenamePattern = None, filterPattern = None, deleteOnSuccess = False\<rparr>"

definition entryOf :: "string \<Rightarrow> Buffer \<Rightarrow> Entry" where
  "entryOf n bytes = \<lparr>fileName = n, uncompressedSize = length bytes, inflated = Inr [bytes]\<rparr>"

definition plainParser :: ContentParser where
  "plainParser = \<lparr>extractFilename = (\<lambda>text fallbackName. fallbackName), shouldFilter = (\<lambda>text. False)\<rparr>"

text \<open>A buffer of ten mebibytes, the default limit for one entry.\<close>

definition tenMiB :: Buffer where
  "tenMiB = replicate (10 * 1024 * 1024) 0"


text \<open>
  An invocation with three archives and one other file in the source directory, one
  entry in each archive, and a clock that is above the buffer at its first reading and
  below it from the second on.
\<close>

definition gateEnv :: env where
  "gateEnv = exampleEnv
     \<lparr>readdir := (\<lambda>d. Inr [''a.zip'', ''b.zip'', ''notes.txt'', ''c.zip'']),
      yauzl_open := (\<lambda>p. Opened [entryOf ''a.xml'' [1]] None),
      getRemainingTimeInMillis := (\<lambda>n. if n < 1 then 300000 else 20000)\<rparr>"

text \<open>One archive with one entry, and a store that rejects every upload.\<close>

definition rejectingEnv :: env where
  "rejectingEnv = exampleEnv
     \<lparr>readdir := (\<lambda>d. Inr [''a.zip'']),
      yauzl_open := (\<lambda>p. Opened [entryOf ''a.xml'' [1]] None),
      s3_send := (\<lambda>n command. Inl (Error ''Access Denied''))\<rparr>"

text \<open>
  Twenty-one entries of ten mebibytes each: every entry is within the default limit for
  one entry, and together they are over the default limit for the whole archive.
\<close>

definition oversizedEntries :: "Entry list" where
  "oversizedEntries = replicate 21 (entryOf ''a.xml'' tenMiB)"

definition oversizedEnv :: env where
  "oversizedEnv = exampleEnv\<lparr>yauzl_open := (\<lambda>p. Opened oversizedEntries None)\<rparr>"


text \<open>A configuration with batches of two, and three files to be batched.\<close>

definition smallBatches :: Config where
  "smallBatches = exampleConfig\<lparr>batchSize := 2\<rparr>"

definition threeFiles :: "ExtractedFile list" where
  "threeFiles = [\<lparr>name = ''a.xml'', ExtractedFile.content = [1]\<rparr>,
                 \<lparr>name = ''b.xml'', ExtractedFile.content = [2]\<rparr>,
                 \<lparr>name = ''c.xml'', ExtractedFile.content = [3]\<rparr>]"

definition threeUploads :: "FileToUpload list" where
  "threeUploads = [\<lparr>key = ''a.xml'', content = [1]\<rparr>, \<lparr>key = ''b.xml'', content = [2]\<rparr>,
                   \<lparr>key = ''c.xml'', content = [3]\<rparr>]"

text \<open>
  An archive with two entries of the same name, with the state of the loop after the
  first of them; and an archive whose third entry has the name the second one is given.
\<close>

definition dupFirst :: ExtractedFile where
  "dupFirst = \<lparr>name = ''a.xml'', ExtractedFile.content = [1]\<rparr>"

definition dupSecond :: ExtractedFile where
  "dupSecond = \<lparr>name = ''a.xml'', ExtractedFile.content = [2]\<rparr>"

definition dupEnv :: env where
  "dupEnv = exampleEnv\<lparr>yauzl_open := (\<lambda>p. Opened [entryOf ''a.xml'' [1], entryOf ''a.xml'' [2]] None)\<rparr>"

definition afterFirst :: locals where
  "afterFirst =
     \<lparr>filesExtracted = 1, filteredCount = 0, filesUploaded = 0, filesFailed = 0,
      usedFilenames = {''a.xml''}, currentBatch = [\<lparr>key = ''a.xml'', content = [1]\<rparr>],
      currentBatchPrefix = ''uploads/1234abcd-0000-4000-8000-000000000000/''\<rparr>"

definition openedWorld :: world where
  "openedWorld = world0\<lparr>uuid_calls := 1, opened := [''/in/a.zip'']\<rparr>"

definition collidingEnv :: env where
  "collidingEnv = exampleEnv
     \<lparr>yauzl_open := (\<lambda>p. Opened [entryOf ''a.xml'' [1], entryOf ''a.xml'' [2],
                                   entryOf ''a-9f8e7d6c.xml'' [3]] None)\<rparr>"

section \<open>Properties of the extractor\<close>

text \<open>
  What passes yauzl's byte counter is the data, and it has the declared size. Data
  longer than the declared size fails at the first chunk that takes the count over it.
\<close>

lemma AssertByteCountStream_Inr:
  "actual \<le> expected \<Longrightarrow> AssertByteCountStream expected actual chunks = Inr bytes \<Longrightarrow>
   bytes = concat chunks \<and> actual + length bytes = expected"
proof (induction chunks arbitrary: actual bytes)
  case Nil
  then show ?case by (auto split: if_splits)
next
  case (Cons c cs)
  from Cons.prems(2) have le: "actual + length c \<le> expected"
    by (auto simp: Let_def split: if_splits)
  with Cons.prems(2) obtain rest where rest:
    "AssertByteCountStream expected (actual + length c) cs = Inr rest" "bytes = c @ rest"
    by (auto simp: Let_def split: if_splits sum.splits)
  from Cons.IH[OF le rest(1)] rest(2) show ?case by (auto simp: add.assoc)
qed

lemma openReadStream_length:
  "openReadStream e = Inr bytes \<Longrightarrow> length bytes = uncompressedSize e"
  using AssertByteCountStream_Inr[of 0 "uncompressedSize e"]
  by (auto simp: openReadStream_def split: sum.splits)

lemma AssertByteCountStream_over:
  "actual \<le> expected \<Longrightarrow> expected < actual + length (concat chunks) \<Longrightarrow>
   \<exists>k<length chunks.
     actual + length (concat (take k chunks)) \<le> expected \<and>
     expected < actual + length (concat (take (Suc k) chunks)) \<and>
     AssertByteCountStream expected actual chunks =
       Inl (TooManyBytes expected (actual + length (concat (take (Suc k) chunks))))"
proof (induction chunks arbitrary: actual)
  case Nil
  then show ?case by simp
next
  case (Cons c cs)
  show ?case
  proof (cases "expected < actual + length c")
    case True
    with Cons.prems show ?thesis by (intro exI[of _ 0]) (simp add: Let_def)
  next
    case False
    then have le: "actual + length c \<le> expected" by simp
    from Cons.prems have "expected < (actual + length c) + length (concat cs)" by simp
    from Cons.IH[OF le this] obtain k where k: "k < length cs"
      "actual + length c + length (concat (take k cs)) \<le> expected"
      "expected < actual + length c + length (concat (take (Suc k) cs))"
      "AssertByteCountStream expected (actual + length c) cs =
         Inl (TooManyBytes expected (actual + length c + length (concat (take (Suc k) cs))))"
      by blast
    with False show ?thesis
      by (intro exI[of _ "Suc k"]) (simp add: Let_def add.assoc)
  qed
qed

lemma openReadStream_over:
  assumes "inflated e = Inr chunks" "uncompressedSize e < length (concat chunks)"
  shows "\<exists>k<length chunks.
     length (concat (take k chunks)) \<le> uncompressedSize e \<and>
     uncompressedSize e < length (concat (take (Suc k) chunks)) \<and>
     openReadStream e =
       Inl (Some (TooManyBytes (uncompressedSize e) (length (concat (take (Suc k) chunks)))))"
  using AssertByteCountStream_over[of 0 "uncompressedSize e" chunks] assms
  by (auto simp: openReadStream_def)

lemma extractZipStreaming_loop_declared:
  "f \<in> set (fst (extractZipStreaming_loop zp maxE maxS entryCount entries ending)) \<Longrightarrow>
   \<exists>e \<in> set entries. name f = fileName e \<and> openReadStream e = Inr (ExtractedFile.content f)"
  by (induction zp maxE maxS entryCount entries ending rule: extractZipStreaming_loop.induct)
     (auto simp: Let_def split: option.splits sum.splits prod.splits if_splits)


lemma extractZipStreaming_loop_size:
  "f \<in> set (fst (extractZipStreaming_loop zp maxE maxS entryCount entries ending)) \<Longrightarrow>
   length (ExtractedFile.content f) \<le> maxS"
  by (induction zp maxE maxS entryCount entries ending rule: extractZipStreaming_loop.induct)
     (auto simp: Let_def split: option.splits sum.splits prod.splits if_splits)

text \<open>
  Entries that all pass leave the loop where it would be had it started after them with
  the counter advanced: what follows them is read as if they were not there.
\<close>

lemma extractZipStreaming_loop_append:
  "extractZipStreaming_loop zp maxE maxS c pre None = (ys, None) \<Longrightarrow>
   extractZipStreaming_loop zp maxE maxS c (pre @ rest) ending =
     (ys @ fst (extractZipStreaming_loop zp maxE maxS (c + length ys) rest ending),
      snd (extractZipStreaming_loop zp maxE maxS (c + length ys) rest ending))"
proof (induction pre arbitrary: c ys)
  case Nil
  then show ?case by simp
next
  case (Cons e pre)
  then show ?case
    by (auto simp: Let_def split: option.splits sum.splits prod.splits if_splits)
qed

lemma extractZipStreaming_append:
  "extractZipStreaming (Opened pre None) zp options = (ys, None) \<Longrightarrow>
   extractZipStreaming (Opened (pre @ rest) ending) zp options =
     (ys @ fst (extractZipStreaming_loop zp (effectiveMaxEntries options)
                  (effectiveMaxEntrySize options) (length ys) rest ending),
      snd (extractZipStreaming_loop zp (effectiveMaxEntries options)
             (effectiveMaxEntrySize options) (length ys) rest ending))"
  using extractZipStreaming_loop_append[of zp _ _ 0 pre ys rest ending]
  by (simp add: extractZipStreaming_def Let_def)

lemma extractZipStreaming_size:
  "f \<in> set (fst (extractZipStreaming zf zp options)) \<Longrightarrow>
   length (ExtractedFile.content f) \<le> effectiveMaxEntrySize options"
  using extractZipStreaming_loop_size[of f zp "effectiveMaxEntries options" "effectiveMaxEntrySize options" 0]
  by (cases zf) (simp_all add: extractZipStreaming_def Let_def)



text \<open>
  Claim C10, as stated, fails on the error: an entry whose header declares a size
  within the limit and whose data is longer does stop extraction, and is not yielded,
  but the error is not the entry-size error. yauzl's byte counter fails the stream
  first, and the relay wraps that in the extraction error. Here the second entry
  declares one byte and has four, under a limit of three bytes.
\<close>

theorem lying_header_stream_error:
  "extractZipStreaming
     (Opened [entryOf ''a.xml'' [1, 2],
              \<lparr>fileName = ''b.xml'', uncompressedSize = 1, inflated = Inr [[3, 4, 5, 6]]\<rparr>] None)
     ''/in/a.zip'' \<lparr>maxEntries = None, maxEntrySize = Some 3, maxTotalSize = None\<rparr>
     = ([\<lparr>name = ''a.xml'', ExtractedFile.content = [1, 2]\<rparr>],
        Some (ZipError_extraction ''/in/a.zip'' (Some (TooManyBytes 1 4))))"
  by (simp add: extractZipStreaming_def effectiveMaxEntries_def effectiveMaxEntrySize_def
      DEFAULT_MAX_ENTRIES_def entryOf_def endsWith_def openReadStream_def Let_def)

text \<open>
  Claim C10, amended. When the entries \<open>pre\<close> all pass, yielding \<open>ys\<close>, and the next
  entry is a file within the entry count whose header declares a size within
  \<open>maxEntrySize\<close> but whose data is longer than the header declares (in particular when
  it is longer than \<open>maxEntrySize\<close>), extraction stops and the entry is not yielded; the
  error is the extraction error that carries the error of yauzl's byte counter, raised
  at the first chunk \<open>k\<close> that takes the count over the declared size. Every item that
  is yielded comes from an entry whose stream delivered exactly the declared number of
  bytes, and no yielded item's content is longer than \<open>maxEntrySize\<close>, whatever the
  headers say.
\<close>

theorem lying_header_rejected:
  "(extractZipStreaming (Opened pre None) zp options = (ys, None) \<and>
    \<not> endsWith (fileName e) ''/'' \<and>
    length ys < effectiveMaxEntries options \<and>
    uncompressedSize e \<le> effectiveMaxEntrySize options \<and>
    inflated e = Inr chunks \<and>
    uncompressedSize e < length (concat chunks) \<longrightarrow>
      (\<exists>k<length chunks.
         length (concat (take k chunks)) \<le> uncompressedSize e \<and>
         uncompressedSize e < length (concat (take (Suc k) chunks)) \<and>
         extractZipStreaming (Opened (pre @ e # post) ending) zp options =
           (ys, Some (ZipError_extraction zp
                  (Some (TooManyBytes (uncompressedSize e)
                           (length (concat (take (Suc k) chunks))))))))) \<and>
   (\<forall>f \<in> set (fst (extractZipStreaming (Opened entries ending) zp options)).
      \<exists>e \<in> set entries. name f = fileName e \<and>
         openReadStream e = Inr (ExtractedFile.content f) \<and>
         length (ExtractedFile.content f) = uncompressedSize e) \<and>
   (\<forall>f \<in> set (fst (extractZipStreaming zf zp options)).
      length (ExtractedFile.content f) \<le> effectiveMaxEntrySize options)"
proof (intro conjI impI ballI)
  assume a: "extractZipStreaming (Opened pre None) zp options = (ys, None) \<and>
    \<not> endsWith (fileName e) ''/'' \<and>
    length ys < effectiveMaxEntries options \<and>
    uncompressedSize e \<le> effectiveMaxEntrySize options \<and>
    inflated e = Inr chunks \<and>
    uncompressedSize e < length (concat chunks)"
  then obtain k where k: "k < length chunks"
      "length (concat (take k chunks)) \<le> uncompressedSize e"
      "uncompressedSize e < length (concat (take (Suc k) chunks))"
      "openReadStream e =
         Inl (Some (TooManyBytes (uncompressedSize e) (length (concat (take (Suc k) chunks)))))"
    using openReadStream_over[of e chunks] by blast
  from a k(4) have "extractZipStreaming (Opened (pre @ e # post) ending) zp options =
      (ys, Some (ZipError_extraction zp
             (Some (TooManyBytes (uncompressedSize e) (length (concat (take (Suc k) chunks)))))))"
    by (simp add: extractZipStreaming_append Let_def)
  with k(1-3) show "\<exists>k<length chunks.
         length (concat (take k chunks)) \<le> uncompressedSize e \<and>
         uncompressedSize e < length (concat (take (Suc k) chunks)) \<and>
         extractZipStreaming (Opened (pre @ e # post) ending) zp options =
           (ys, Some (ZipError_extraction zp
                  (Some (TooManyBytes (uncompressedSize e)
                           (length (concat (take (Suc k) chunks)))))))"
    by blast
next
  fix f assume "f \<in> set (fst (extractZipStreaming (Opened entries ending) zp options))"
  then have "f \<in> set (fst (extractZipStreaming_loop zp (effectiveMaxEntries options)
      (effectiveMaxEntrySize options) 0 entries ending))"
    by (simp add: extractZipStreaming_def Let_def)
  from extractZipStreaming_loop_declared[OF this]
  show "\<exists>e \<in> set entries. name f = fileName e \<and>
         openReadStream e = Inr (ExtractedFile.content f) \<and>
         length (ExtractedFile.content f) = uncompressedSize e"
    by (auto dest: openReadStream_length)
next
  fix f assume "f \<in> set (fst (extractZipStreaming zf zp options))"
  then show "length (ExtractedFile.content f) \<le> effectiveMaxEntrySize options"
    by (rule extractZipStreaming_size)
qed

text \<open>
  A second entry whose header declares two bytes and whose data comes in three chunks
  of one, two and one bytes, under a limit of three bytes: the second chunk takes the
  count to three, over the declared two, and extraction stops there with the error of
  the byte counter; only the first file is yielded, with the two bytes it declares.
\<close>

theorem lying_header_rejected_witness:
  "extractZipStreaming
     (Opened ([entryOf ''a.xml'' [1, 2]] @
        \<lparr>fileName = ''b.xml'', uncompressedSize = 2, inflated = Inr [[3], [4, 5], [6]]\<rparr> # []) None)
     ''/in/a.zip'' \<lparr>maxEntries = None, maxEntrySize = Some 3, maxTotalSize = None\<rparr>
     = ([\<lparr>name = ''a.xml'', ExtractedFile.content = [1, 2]\<rparr>],
        Some (ZipError_extraction ''/in/a.zip'' (Some (TooManyBytes 2 3)))) \<and>
   openReadStream (entryOf ''a.xml'' [1, 2]) = Inr [1, 2] \<and>
   length [1, 2 :: 8 word] = uncompressedSize (entryOf ''a.xml'' [1, 2]) \<and>
   length [1, 2 :: 8 word] \<le> 3"
proof -
  let ?e = "\<lparr>fileName = ''b.xml'', uncompressedSize = 2, inflated = Inr [[3], [4, 5], [6]]\<rparr> :: Entry"
  let ?o = "\<lparr>maxEntries = None, maxEntrySize = Some 3, maxTotalSize = None\<rparr>"
  let ?f = "\<lparr>name = ''a.xml'', ExtractedFile.content = [1, 2]\<rparr>"
  have pre: "extractZipStreaming (Opened [entryOf ''a.xml'' [1, 2]] None) ''/in/a.zip'' ?o = ([?f], None)"
    by (simp add: extractZipStreaming_def effectiveMaxEntries_def effectiveMaxEntrySize_def
        DEFAULT_MAX_ENTRIES_def entryOf_def endsWith_def openReadStream_def Let_def)
  note inst = lying_header_rejected[where pre = "[entryOf ''a.xml'' [1, 2]]" and zp = "''/in/a.zip''"
      and options = ?o and ys = "[?f]" and e = ?e and chunks = "[[3], [4, 5], [6]]" and post = "[]"
      and ending = None and entries = "[entryOf ''a.xml'' [1, 2]]"
      and zf = "Opened [entryOf ''a.xml'' [1, 2]] None"]
  have hyp: "extractZipStreaming (Opened [entryOf ''a.xml'' [1, 2]] None) ''/in/a.zip'' ?o = ([?f], None) \<and>
      \<not> endsWith (fileName ?e) ''/'' \<and>
      length [?f] < effectiveMaxEntries ?o \<and>
      uncompressedSize ?e \<le> effectiveMaxEntrySize ?o \<and>
      inflated ?e = Inr [[3], [4, 5], [6]] \<and>
      uncompressedSize ?e < length (concat [[3], [4, 5], [6 :: 8 word]])"
    using pre by (simp add: effectiveMaxEntries_def effectiveMaxEntrySize_def
        DEFAULT_MAX_ENTRIES_def endsWith_def)
  from inst[THEN conjunct1, THEN mp, OF hyp] obtain k where k: "k < length [[3], [4, 5], [6 :: 8 word]]"
      "length (concat (take k [[3], [4, 5], [6 :: 8 word]])) \<le> uncompressedSize ?e"
      "uncompressedSize ?e < length (concat (take (Suc k) [[3], [4, 5], [6 :: 8 word]]))"
      "extractZipStreaming (Opened ([entryOf ''a.xml'' [1, 2]] @ ?e # []) None) ''/in/a.zip'' ?o =
        ([?f], Some (ZipError_extraction ''/in/a.zip''
           (Some (TooManyBytes (uncompressedSize ?e)
                    (length (concat (take (Suc k) [[3], [4, 5], [6 :: 8 word]])))))))"
    by blast
  from k(1) have "k = 0 \<or> k = 1 \<or> k = 2" by (simp, arith)
  with k(2,3) have k1: "k = 1" by auto
  from k(4) have 1: "extractZipStreaming (Opened ([entryOf ''a.xml'' [1, 2]] @ ?e # []) None) ''/in/a.zip'' ?o =
        ([?f], Some (ZipError_extraction ''/in/a.zip'' (Some (TooManyBytes 2 3))))"
    unfolding k1 by simp
  have mem: "?f \<in> set (fst (extractZipStreaming (Opened [entryOf ''a.xml'' [1, 2]] None) ''/in/a.zip'' ?o))"
    unfolding pre by simp
  from inst[THEN conjunct2, THEN conjunct1, THEN bspec, OF mem]
  have 2: "openReadStream (entryOf ''a.xml'' [1, 2]) = Inr [1, 2] \<and>
      length [1, 2 :: 8 word] = uncompressedSize (entryOf ''a.xml'' [1, 2])"
    by simp
  from inst[THEN conjunct2, THEN conjunct2, THEN bspec, OF mem]
  have 3: "length [1, 2 :: 8 word] \<le> 3"
    by (simp add: effectiveMaxEntrySize_def)
  from 1 2 3 show ?thesis by blast
qed

section \<open>Properties of the content parser\<close>

text \<open>
  Claim C9. The parser's answers depend on the content (and the fallback name) only.
  With no filter pattern (none, or the empty string) \<open>shouldFilter\<close> is false for every
  content. When the naming pattern matches the content and its first capture group is a
  non-empty string, the name is that group followed by \<open>.xml\<close>. In every other case (no
  naming pattern, no match, no first group, an empty first group) the name is the
  fallback, unchanged.
\<close>

theorem parser_classification:
  "createContentParser newRE namePattern skipPattern = Inr parser \<Longrightarrow>
   ((skipPattern = None \<or> skipPattern = Some []) \<longrightarrow> shouldFilter parser text = False) \<and>
   (\<forall>p re m g. namePattern = Some p \<and> p \<noteq> [] \<and> newRE p = Inr re \<and>
        re text = Some m \<and> group1 m = Some g \<and> g \<noteq> [] \<longrightarrow>
        extractFilename parser text fallbackName = g @ ''.xml'') \<and>
   (namePattern = None \<or> namePattern = Some [] \<or>
    (\<exists>p re. namePattern = Some p \<and> newRE p = Inr re \<and>
       (re text = None \<or> (\<exists>m. re text = Some m \<and> (group1 m = None \<or> group1 m = Some [])))) \<longrightarrow>
        extractFilename parser text fallbackName = fallbackName)"
  by (auto simp: createContentParser_def regexOf_def split: sum.splits option.splits if_splits)

text \<open>
  With the example engine and its naming pattern, and no filter pattern: nothing is
  filtered, a content the pattern matches is named after the group, and a content it
  does not match keeps the entry's name.
\<close>

theorem parser_classification_witness:
  "\<exists>parser. createContentParser exampleRegExp (Some ''<id>(.*?)</id>'') None = Inr parser \<and>
     shouldFilter parser ''<id>7</id>'' = False \<and>
     extractFilename parser ''<id>7</id>'' ''entry.txt'' = ''7.xml'' \<and>
     extractFilename parser ''<other/>'' ''entry.txt'' = ''entry.txt''"
proof -
  obtain parser where P: "createContentParser exampleRegExp (Some ''<id>(.*?)</id>'') None = Inr parser"
    by (simp add: createContentParser_def regexOf_def exampleRegExp_def)
  have re: "exampleRegExp ''<id>(.*?)</id>'' =
      Inr (\<lambda>text. if text = ''<id>7</id>'' then Some [Some ''<id>7</id>'', Some ''7''] else None)"
    by (simp add: exampleRegExp_def)
  from parser_classification[OF P, of "''<id>7</id>''" "''entry.txt''"]
  have a: "shouldFilter parser ''<id>7</id>'' = False"
    and b: "extractFilename parser ''<id>7</id>'' ''entry.txt'' = ''7.xml''"
    using re by (auto simp: group1_def)
  from parser_classification[OF P, of "''<other/>''" "''entry.txt''"]
  have c: "extractFilename parser ''<other/>'' ''entry.txt'' = ''entry.txt''"
    using re by auto
  from P a b c show ?thesis by blast
qed

section \<open>Properties of the uploader\<close>

lemma slice_list_nat: "slice_list xs (int a) (int b) = take (b - a) (drop a xs)"
  by (auto simp: slice_list_def clampIndex_def Let_def min_def)

lemma slice_list_step: "slice_list xs (int a) (int a + int c) = take c (drop a xs)"
  using slice_list_nat[of xs a "a + c"] by simp

lemma uploadChunk_append:
  "uploadChunk E bucket (xs @ ys) w =
     (fst (uploadChunk E bucket xs w) @ fst (uploadChunk E bucket ys (snd (uploadChunk E bucket xs w))),
      snd (uploadChunk E bucket ys (snd (uploadChunk E bucket xs w))))"
  by (induction xs arbitrary: w) (auto simp: Let_def split: prod.splits)

text \<open>
  The wave loop returns for every positive step, and what it returns is what one chunk
  holding all the files returns: the waves change when an upload starts, not which
  uploads are made, their order or their results.
\<close>

lemma uploadFilesInChunks_loop_eq:
  "0 < c \<Longrightarrow>
   uploadFilesInChunks_loop E bucket fs c i results w =
     Some (results @ fst (uploadChunk E bucket (drop i fs) w), snd (uploadChunk E bucket (drop i fs) w))"
proof (induction "length fs - i" arbitrary: i results w rule: less_induct)
  case less
  show ?case
  proof (cases "i < length fs")
    case False
    then show ?thesis by (subst uploadFilesInChunks_loop.simps) simp
  next
    case True
    have d: "take c (drop i fs) @ drop (i + c) fs = drop i fs"
      by (metis add.commute append_take_drop_id drop_drop)
    have split: "uploadChunk E bucket (drop i fs) w =
        uploadChunk E bucket (take c (drop i fs) @ drop (i + c) fs) w"
      by (simp only: d)
    have "length fs - (i + c) < length fs - i" using True less.prems by arith
    from less.hyps[OF this less.prems]
    have IH: "\<And>results w. uploadFilesInChunks_loop E bucket fs c (i + c) results w =
      Some (results @ fst (uploadChunk E bucket (drop (i + c) fs) w),
            snd (uploadChunk E bucket (drop (i + c) fs) w))" .
    show ?thesis
      apply (subst uploadFilesInChunks_loop.simps)
      apply (simp only: split uploadChunk_append)
      apply (simp add: True slice_list_step IH Let_def split: prod.splits)
      done
  qed
qed

lemma uploadFilesInChunks_returns:
  "0 < c \<Longrightarrow> uploadFilesInChunks E bucket fs c w = Some (uploadChunk E bucket fs w)"
  by (simp add: uploadFilesInChunks_def uploadFilesInChunks_loop_eq)

lemma tryUploadFile_eq:
  "tryUploadFile E bucket (key f) (content f) w =
      (itemOutcome E bucket (f # fs) w 0,
       w\<lparr>s3_puts := s3_puts w @ [putObjectCommand E bucket (key f) (content f)]\<rparr>)"
  by (simp add: tryUploadFile_def itemOutcome_def Let_def split: sum.splits)

lemma itemOutcome_Cons:
  "itemOutcome E bucket (f # fs) w (Suc j) =
   itemOutcome E bucket fs (w\<lparr>s3_puts := s3_puts w @ [c]\<rparr>) j"
  by (simp add: itemOutcome_def split: sum.splits)

lemma uploadChunk_results:
  "uploadChunk E bucket fs w =
     (map (itemOutcome E bucket fs w) [0..<length fs],
      w\<lparr>s3_puts := s3_puts w @ map (\<lambda>f. putObjectCommand E bucket (key f) (content f)) fs\<rparr>)"
proof (induction fs arbitrary: w)
  case Nil
  then show ?case by simp
next
  case (Cons f fs)
  have tail: "map (\<lambda>j. itemOutcome E bucket (f # fs) w (Suc j)) [0..<length fs] =
      map (itemOutcome E bucket fs
             (w\<lparr>s3_puts := s3_puts w @ [putObjectCommand E bucket (key f) (content f)]\<rparr>))
          [0..<length fs]"
    by (simp only: itemOutcome_Cons[where c = "putObjectCommand E bucket (key f) (content f)"])
  show ?case
    unfolding uploadChunk.simps tryUploadFile_eq[where fs = fs] Cons.IH Let_def prod.case
      list.size map_upt_Suc tail[symmetric]
    by (simp add: map_upt_Suc del: upt_Suc)
qed

lemma partitionResults_loop_eq:
  "partitionResults_loop rs ok bad = (ok @ valuesOf rs, bad @ errorsOf rs)"
  by (induction rs arbitrary: ok bad rule: valuesOf.induct) simp_all

lemma partitionResults_eq: "partitionResults rs = (valuesOf rs, errorsOf rs)"
  by (simp add: partitionResults_def partitionResults_loop_eq)

lemma partition_lengths: "length (valuesOf rs) + length (errorsOf rs) = length rs"
  by (induction rs rule: valuesOf.induct) simp_all

lemma no_errors_iff:
  "errorsOf rs = [] \<longleftrightarrow> (\<forall>r \<in> set rs. case r of Inr v \<Rightarrow> True | Inl e \<Rightarrow> False)"
  by (induction rs rule: valuesOf.induct) simp_all

lemma filesToUpload_of_length:
  "filesToUpload_of p fs = Inr gs \<Longrightarrow> length gs = length fs"
  by (induction fs arbitrary: gs) (auto split: sum.splits)

text \<open>
  \<open>S3Key\<close> returns its argument or throws. The destination keys are built in the order
  of the batch: all of them when every one is an S3 key, and otherwise the first one
  that is not throws.
\<close>

lemma S3Key_Inr: "S3Key v = Inr k \<Longrightarrow> k = v"
  by (auto simp: S3Key_def split: if_splits)

lemma filesToUpload_of_valid:
  "\<forall>f \<in> set fs. \<exists>k. S3Key (joinS3Path [p, key f]) = Inr k \<Longrightarrow>
   filesToUpload_of p fs = Inr (map (\<lambda>f. \<lparr>key = joinS3Path [p, key f], content = content f\<rparr>) fs)"
  by (induction fs) (auto dest: S3Key_Inr)

lemma filesToUpload_of_invalid:
  "\<forall>g \<in> set good. \<exists>k. S3Key (joinS3Path [p, key g]) = Inr k \<Longrightarrow>
   S3Key (joinS3Path [p, key f]) = Inl err \<Longrightarrow>
   filesToUpload_of p (good @ f # later) = Inl err"
  by (induction good) (auto simp: filesToUpload_of_valid)

text \<open>What \<open>tryUploadBatch\<close> does with a batch whose destination keys are all S3 keys.\<close>

lemma tryUploadBatch_eq:
  assumes "filesToUpload_of (prefix batch) (files batch) = Inr fs"
  shows "tryUploadBatch E bucket batch w =
     (let outcomes = map (itemOutcome E bucket fs w) [0..<length fs];
          w' = w\<lparr>handed_off := handed_off w @ [batch],
                 s3_puts := s3_puts w @ map (\<lambda>f. putObjectCommand E bucket (key f) (content f)) fs\<rparr>
      in if errorsOf outcomes = []
         then (Inr (full_success (prefix batch) (valuesOf outcomes)), w')
         else (Inr (partial_success (prefix batch) (valuesOf outcomes) (errorsOf outcomes)), w'))"
proof -
  have io: "itemOutcome E bucket fs (w\<lparr>handed_off := handed_off w @ [batch]\<rparr>) = itemOutcome E bucket fs w"
    by (rule ext) (simp add: itemOutcome_def)
  have up: "uploadFilesInChunks E bucket fs UPLOAD_CONCURRENCY (w\<lparr>handed_off := handed_off w @ [batch]\<rparr>) =
      Some (map (itemOutcome E bucket fs w) [0..<length fs],
            w\<lparr>handed_off := handed_off w @ [batch],
              s3_puts := s3_puts w @ map (\<lambda>f. putObjectCommand E bucket (key f) (content f)) fs\<rparr>)"
    by (simp add: uploadFilesInChunks_returns UPLOAD_CONCURRENCY_def uploadChunk_results io)
  show ?thesis
    unfolding tryUploadBatch_def Let_def assms sum.case up option.sel prod.case partitionResults_eq
    by simp
qed

text \<open>
  Claim C5, as stated, fails for a batch with a destination key that is not an S3 key:
  \<open>tryUploadBatch\<close> builds every destination key with the checked constructor \<open>S3Key\<close>
  before it sends anything, and the constructor throws. Here the batch prefix is empty
  and the item key \<open>/\<close> joins to the empty string.
\<close>

theorem tryUploadBatch_raises:
  "fst (tryUploadBatch exampleEnv ''bucket'' \<lparr>prefix = [], files = [\<lparr>key = ''/'', content = []\<rparr>]\<rparr> world0)
     = Inl S3KeyEmpty"
  by (simp add: tryUploadBatch_def joinS3Path_def stripSlashes_def S3Key_def Let_def)

text \<open>
  Claim C5, amended. When the destination keys of a batch (the batch prefix joined with
  each item key) are all S3 keys, they are built in the order of the batch and,
  whatever the store answers, \<open>tryUploadBatch\<close> returns a result and does not throw;
  the successes of the result are exactly the delivered items and its failures exactly
  the rejected ones, each with its cause and in the order of the batch; the status is
  \<open>full_success\<close> exactly when every item was delivered and \<open>partial_success\<close> exactly
  when at least one was not; and successes plus failures count every file of the batch
  once. When a destination key is not an S3 key, \<open>tryUploadBatch\<close> throws the error of
  the first such key, and nothing has been sent to the store.
\<close>

theorem tryUploadBatch_outcome:
  "((\<forall>f \<in> set (files batch). \<exists>k. S3Key (joinS3Path [prefix batch, key f]) = Inr k) \<longrightarrow>
      filesToUpload_of (prefix batch) (files batch) =
        Inr (map (\<lambda>f. \<lparr>key = joinS3Path [prefix batch, key f], content = content f\<rparr>) (files batch))) \<and>
   (filesToUpload_of (prefix batch) (files batch) = Inr fs \<longrightarrow>
      (\<exists>result w'. tryUploadBatch E bucket batch w = (Inr result, w') \<and>
         successful result = valuesOf (map (itemOutcome E bucket fs w) [0..<length fs]) \<and>
         failedOutcomes result = errorsOf (map (itemOutcome E bucket fs w) [0..<length fs]) \<and>
         (status result = status_full_success \<longleftrightarrow> (\<forall>j<length fs. delivered E bucket fs w j)) \<and>
         (status result = status_partial_success \<longleftrightarrow> (\<exists>j<length fs. \<not> delivered E bucket fs w j)) \<and>
         length (successful result) + length (failedOutcomes result) = length (files batch))) \<and>
   (files batch = good @ f # later \<and>
    (\<forall>g \<in> set good. \<exists>k. S3Key (joinS3Path [prefix batch, key g]) = Inr k) \<and>
    S3Key (joinS3Path [prefix batch, key f]) = Inl err \<longrightarrow>
      tryUploadBatch E bucket batch w = (Inl err, w\<lparr>handed_off := handed_off w @ [batch]\<rparr>) \<and>
      s3_puts (snd (tryUploadBatch E bucket batch w)) = s3_puts w)"
proof (intro conjI impI)
  assume "\<forall>f \<in> set (files batch). \<exists>k. S3Key (joinS3Path [prefix batch, key f]) = Inr k"
  then show "filesToUpload_of (prefix batch) (files batch) =
        Inr (map (\<lambda>f. \<lparr>key = joinS3Path [prefix batch, key f], content = content f\<rparr>) (files batch))"
    by (rule filesToUpload_of_valid)
next
  assume valid: "filesToUpload_of (prefix batch) (files batch) = Inr fs"
  define out where "out = map (itemOutcome E bucket fs w) [0..<length fs]"
  have len: "length fs = length (files batch)" using valid by (rule filesToUpload_of_length)
  have all: "errorsOf out = [] \<longleftrightarrow> (\<forall>j<length fs. delivered E bucket fs w j)"
    unfolding no_errors_iff delivered_def out_def by auto
  have sum: "length (valuesOf out) + length (errorsOf out) = length (files batch)"
    using partition_lengths[of out] len by (simp add: out_def)
  have eq: "tryUploadBatch E bucket batch w =
     (if errorsOf out = []
         then (Inr (full_success (prefix batch) (valuesOf out)),
               w\<lparr>handed_off := handed_off w @ [batch],
                 s3_puts := s3_puts w @ map (\<lambda>f. putObjectCommand E bucket (key f) (content f)) fs\<rparr>)
         else (Inr (partial_success (prefix batch) (valuesOf out) (errorsOf out)),
               w\<lparr>handed_off := handed_off w @ [batch],
                 s3_puts := s3_puts w @ map (\<lambda>f. putObjectCommand E bucket (key f) (content f)) fs\<rparr>))"
    unfolding tryUploadBatch_eq[OF valid] Let_def out_def ..
  show "\<exists>result w'. tryUploadBatch E bucket batch w = (Inr result, w') \<and>
         successful result = valuesOf (map (itemOutcome E bucket fs w) [0..<length fs]) \<and>
         failedOutcomes result = errorsOf (map (itemOutcome E bucket fs w) [0..<length fs]) \<and>
         (status result = status_full_success \<longleftrightarrow> (\<forall>j<length fs. delivered E bucket fs w j)) \<and>
         (status result = status_partial_success \<longleftrightarrow> (\<exists>j<length fs. \<not> delivered E bucket fs w j)) \<and>
         length (successful result) + length (failedOutcomes result) = length (files batch)"
  proof (cases "errorsOf out = []")
    case True
    with all sum show ?thesis unfolding eq out_def[symmetric] by simp
  next
    case False
    with all sum show ?thesis unfolding eq out_def[symmetric] by simp
  qed
next
  assume a: "files batch = good @ f # later \<and>
    (\<forall>g \<in> set good. \<exists>k. S3Key (joinS3Path [prefix batch, key g]) = Inr k) \<and>
    S3Key (joinS3Path [prefix batch, key f]) = Inl err"
  then have "filesToUpload_of (prefix batch) (files batch) = Inl err"
    using filesToUpload_of_invalid[of good "prefix batch" f err later] by simp
  then have t: "tryUploadBatch E bucket batch w = (Inl err, w\<lparr>handed_off := handed_off w @ [batch]\<rparr>)"
    by (simp add: tryUploadBatch_def Let_def)
  show "tryUploadBatch E bucket batch w = (Inl err, w\<lparr>handed_off := handed_off w @ [batch]\<rparr>)"
    by (rule t)
  show "s3_puts (snd (tryUploadBatch E bucket batch w)) = s3_puts w"
    unfolding t by simp
qed

text \<open>
  A batch of two files of which the store rejects the second: \<open>partial_success\<close>, with
  the first file among the successes and the second, with its cause, among the failures.
  And a batch of two files under an empty prefix whose second key is \<open>/\<close>: the empty
  destination key throws, and no request has been made.
\<close>

theorem tryUploadBatch_outcome_witness:
  "(\<exists>result w'.
     tryUploadBatch
        (exampleEnv\<lparr>s3_send := (\<lambda>n command. if n = 1 then Inl (Error ''Access Denied'')
                                             else Inr (Some ''etag''))\<rparr>)
        ''bucket''
        \<lparr>prefix = ''p/'', files = [\<lparr>key = ''a.xml'', content = [1]\<rparr>, \<lparr>key = ''b.xml'', content = [2]\<rparr>]\<rparr>
        world0 = (Inr result, w') \<and>
     status result = status_partial_success \<and>
     successful result = [\<lparr>UploadSuccess.key = ''p/a.xml'', etag = Some ''etag''\<rparr>] \<and>
     failedOutcomes result = [S3Error_put ''bucket'' ''p/b.xml'' (Error ''Access Denied'')]) \<and>
   tryUploadBatch exampleEnv ''bucket''
      \<lparr>prefix = [], files = [\<lparr>key = ''a.xml'', content = [1]\<rparr>, \<lparr>key = ''/'', content = [2]\<rparr>]\<rparr> world0 =
     (Inl S3KeyEmpty,
      world0\<lparr>handed_off :=
        [\<lparr>prefix = [], files = [\<lparr>key = ''a.xml'', content = [1]\<rparr>, \<lparr>key = ''/'', content = [2]\<rparr>]\<rparr>]\<rparr>) \<and>
   s3_puts (snd (tryUploadBatch exampleEnv ''bucket''
      \<lparr>prefix = [], files = [\<lparr>key = ''a.xml'', content = [1]\<rparr>, \<lparr>key = ''/'', content = [2]\<rparr>]\<rparr> world0)) = []"
proof -
  let ?E = "exampleEnv\<lparr>s3_send := (\<lambda>n command. if n = 1 then Inl (Error ''Access Denied'')
                                               else Inr (Some ''etag''))\<rparr>"
  let ?batch = "\<lparr>prefix = ''p/'', files = [\<lparr>key = ''a.xml'', content = [1]\<rparr>, \<lparr>key = ''b.xml'', content = [2]\<rparr>]\<rparr>"
  let ?fs = "[\<lparr>key = ''p/a.xml'', content = [1]\<rparr>, \<lparr>key = ''p/b.xml'', content = [2]\<rparr>]"
  let ?bad = "\<lparr>prefix = [], files = [\<lparr>key = ''a.xml'', content = [1]\<rparr>, \<lparr>key = ''/'', content = [2]\<rparr>]\<rparr>"
  note good = tryUploadBatch_outcome[where batch = ?batch and fs = ?fs and E = ?E
      and bucket = "''bucket''" and w = world0]
  have keys: "\<forall>f \<in> set (files ?batch). \<exists>k. S3Key (joinS3Path [prefix ?batch, key f]) = Inr k"
    by (simp add: joinS3Path_def stripSlashes_def S3Key_def S3_KEY_MAX_LENGTH_def)
  from good[THEN conjunct1, THEN mp, OF keys]
  have valid: "filesToUpload_of (prefix ?batch) (files ?batch) = Inr ?fs"
    by (simp add: joinS3Path_def stripSlashes_def)
  from good[THEN conjunct2, THEN conjunct1, THEN mp, OF valid]
  have 1: "\<exists>result w'. tryUploadBatch ?E ''bucket'' ?batch world0 = (Inr result, w') \<and>
     status result = status_partial_success \<and>
     successful result = [\<lparr>UploadSuccess.key = ''p/a.xml'', etag = Some ''etag''\<rparr>] \<and>
     failedOutcomes result = [S3Error_put ''bucket'' ''p/b.xml'' (Error ''Access Denied'')]"
    by (auto simp: itemOutcome_def delivered_def world0_def exampleEnv_def upt_rec)
  have invalid: "files ?bad = [\<lparr>key = ''a.xml'', content = [1]\<rparr>] @ \<lparr>key = ''/'', content = [2]\<rparr> # [] \<and>
      (\<forall>g \<in> set [\<lparr>key = ''a.xml'', content = [1]\<rparr>]. \<exists>k. S3Key (joinS3Path [prefix ?bad, key g]) = Inr k) \<and>
      S3Key (joinS3Path [prefix ?bad, key \<lparr>key = ''/'', content = [2]\<rparr>]) = Inl S3KeyEmpty"
    by (simp add: joinS3Path_def stripSlashes_def S3Key_def S3_KEY_MAX_LENGTH_def)
  from tryUploadBatch_outcome[where batch = ?bad and E = exampleEnv and bucket = "''bucket''"
      and w = world0 and good = "[\<lparr>key = ''a.xml'', content = [1]\<rparr>]"
      and f = "\<lparr>key = ''/'', content = [2]\<rparr>" and later = "[]" and err = S3KeyEmpty,
      THEN conjunct2, THEN conjunct2, THEN mp, OF invalid]
  have 2: "tryUploadBatch exampleEnv ''bucket'' ?bad world0 =
       (Inl S3KeyEmpty, world0\<lparr>handed_off := [?bad]\<rparr>) \<and>
     s3_puts (snd (tryUploadBatch exampleEnv ''bucket'' ?bad world0)) = []"
    by (simp add: world0_def)
  from 1 2 show ?thesis by (rule conjI)
qed

section \<open>Properties of the batcher\<close>

lemma ceil_div_step:
  fixes n B :: nat
  assumes "0 < B" "0 < n"
  shows "(n + B - 1) div B = Suc ((n - B + B - 1) div B)"
proof (cases "n \<le> B")
  case True
  have "(n + B - 1) div B = 1"
    by (rule div_nat_eqI) (use assms True in auto)
  moreover have "(n - B + B - 1) div B = 0" using assms True by simp
  ultimately show ?thesis by simp
next
  case False
  then have a: "n - B + B - 1 = n - 1" by arith
  have b: "n + B - 1 = (n - 1) + B" using assms by arith
  have "(n - 1 + B) div B = Suc ((n - 1) div B)" using assms(1) by simp
  then show ?thesis unfolding a b .
qed

text \<open>
  From index \<open>i\<close> on, the loop of \<open>createBatches\<close> returns, and adds batches that hold
  the files from \<open>i\<close> on in their order: all of them full but possibly the last.
\<close>

lemma createBatches_loop_shape:
  assumes B: "0 < B"
  shows "\<exists>bs w'. createBatches_loop E fs pb B i batches w = Some (batches @ bs, w') \<and>
      concat (map files bs) = drop i fs \<and>
      length bs = (length fs - i + B - 1) div B \<and>
      (\<forall>b \<in> set (butlast bs). length (files b) = B) \<and>
      (bs \<noteq> [] \<longrightarrow> length (files (last bs)) =
         (if (length fs - i) mod B = 0 then B else (length fs - i) mod B)) \<and>
      uuid_calls w' = uuid_calls w + length bs"
proof (induction "length fs - i" arbitrary: i batches w rule: less_induct)
  case less
  show ?case
  proof (cases "i < length fs")
    case False
    then have "createBatches_loop E fs pb B i batches w = Some (batches, w)"
      by (subst createBatches_loop.simps) simp
    moreover have "(length fs - i + B - 1) div B = 0" using False B by simp
    ultimately show ?thesis using False by simp
  next
    case True
    define n where "n = length fs - i"
    have n: "0 < n" using True by (simp add: n_def)
    define b where "b = \<lparr>prefix = S3Prefix (joinS3Path [pb, uuid E (uuid_calls w)]),
                          files = take B (drop i fs)\<rparr>"
    define w1 where "w1 = w\<lparr>uuid_calls := uuid_calls w + 1\<rparr>"
    have step: "createBatches_loop E fs pb B i batches w =
        createBatches_loop E fs pb B (i + B) (batches @ [b]) w1"
      unfolding b_def w1_def
      apply (rule trans[OF createBatches_loop.simps])
      apply (simp only: True if_True Let_def slice_list_nat add_diff_cancel_left')
      done
    have "length fs - (i + B) < length fs - i" using True B by arith
    from less.hyps[OF this, of "batches @ [b]" w1]
    obtain bs w' where IH:
      "createBatches_loop E fs pb B (i + B) (batches @ [b]) w1 = Some ((batches @ [b]) @ bs, w')"
      "concat (map files bs) = drop (i + B) fs"
      "length bs = (length fs - (i + B) + B - 1) div B"
      "\<forall>b \<in> set (butlast bs). length (files b) = B"
      "bs \<noteq> [] \<longrightarrow> length (files (last bs)) =
         (if (length fs - (i + B)) mod B = 0 then B else (length fs - (i + B)) mod B)"
      "uuid_calls w' = uuid_calls w1 + length bs"
      by blast
    have nB: "length fs - (i + B) = n - B" by (simp add: n_def)
    have lenb: "length (files b) = min B n" by (simp add: b_def n_def min_def)
    have empty_iff: "bs = [] \<longleftrightarrow> n \<le> B"
    proof -
      have "(n - B + B - 1) div B = 0 \<longleftrightarrow> n \<le> B"
        using B n by (auto simp: div_eq_0_iff)
      then show ?thesis using IH(3) nB by (metis length_0_conv)
    qed
    have 1: "createBatches_loop E fs pb B i batches w = Some (batches @ (b # bs), w')"
      using step IH(1) by simp
    have d: "take B (drop i fs) @ drop (i + B) fs = drop i fs"
      by (metis add.commute append_take_drop_id drop_drop)
    have 2: "concat (map files (b # bs)) = drop i fs"
      by (simp add: b_def IH(2) d)
    have "length bs = (n - B + B - 1) div B"
      using IH(3) by (simp only: nB)
    then have "Suc (length bs) = (n + B - 1) div B"
      by (simp only: ceil_div_step[OF B n])
    then have 3: "length (b # bs) = (length fs - i + B - 1) div B"
      by (simp only: n_def list.size)
    have 4: "\<forall>x \<in> set (butlast (b # bs)). length (files x) = B"
      using IH(4) lenb empty_iff by (auto simp: min_def)
    have 5: "length (files (last (b # bs))) =
         (if (length fs - i) mod B = 0 then B else (length fs - i) mod B)"
    proof (cases "bs = []")
      case True
      then have "n \<le> B" using empty_iff by simp
      then show ?thesis using True lenb n by (auto simp: n_def[symmetric] min_def)
    next
      case False
      then have "B < n" using empty_iff by simp
      then have "n mod B = (n - B) mod B" by (simp add: le_mod_geq)
      then show ?thesis using False IH(5) nB by (simp add: n_def[symmetric])
    qed
    have 6: "uuid_calls w' = uuid_calls w + length (b # bs)"
      using IH(6) by (simp add: w1_def)
    show ?thesis
      apply (rule exI[of _ "b # bs"])
      apply (rule exI[of _ w'])
      using 1 2 3 4 5 6 apply simp
      done
  qed
qed

section \<open>What an archive attempt touches\<close>

text \<open>
  Uploading, flushing, naming, processing a file and routing never read the clock and
  never open an archive; an attempt opens exactly its own archive.
\<close>

lemma tryUploadBatch_frame:
  "tryUploadBatch E bucket batch w = (r, w') \<Longrightarrow>
   handed_off w' = handed_off w @ [batch] \<and> uuid_calls w' = uuid_calls w \<and>
   clock_reads w' = clock_reads w \<and> opened w' = opened w \<and> fs_log w' = fs_log w"
proof (cases "filesToUpload_of (prefix batch) (files batch)")
  case (Inl err)
  assume "tryUploadBatch E bucket batch w = (r, w')"
  then show ?thesis using Inl by (auto simp: tryUploadBatch_def Let_def)
next
  case (Inr fs)
  assume "tryUploadBatch E bucket batch w = (r, w')"
  then show ?thesis
    unfolding tryUploadBatch_eq[OF Inr] Let_def by (auto split: if_splits)
qed

lemma flushBatch_frame:
  "flushBatch E cfg st w = (r, w') \<Longrightarrow>
   clock_reads w' = clock_reads w \<and> opened w' = opened w \<and> fs_log w' = fs_log w"
  by (auto simp: flushBatch_def Let_def split: if_splits prod.splits sum.splits
      dest!: tryUploadBatch_frame)

lemma dedupe_frame:
   "dedupe E n st w = (m, w') \<Longrightarrow>
    clock_reads w' = clock_reads w \<and> opened w' = opened w \<and> fs_log w' = fs_log w \<and>
    handed_off w' = handed_off w"
  by (auto simp: dedupe_def Let_def split: if_splits)

lemma processFile_frame:
  "processFile E cfg parser file st w = (r, w') \<Longrightarrow>
   clock_reads w' = clock_reads w \<and> opened w' = opened w \<and> fs_log w' = fs_log w"
  by (auto simp: processFile_def Let_def split: if_splits prod.splits sum.splits
      dest!: flushBatch_frame dedupe_frame)

lemma processFiles_frame:
  "processFiles E cfg parser items stop st w = (r, w') \<Longrightarrow>
   clock_reads w' = clock_reads w \<and> opened w' = opened w \<and> fs_log w' = fs_log w"
proof (induction items arbitrary: st w)
  case Nil
  then show ?case by (auto split: option.splits)
next
  case (Cons f items)
  then show ?case
    by (auto split: prod.splits sum.splits dest!: processFile_frame)
qed

lemma tryRouteFile_frame:
  "tryRouteFile E p ok a f d w = (r, w') \<Longrightarrow>
   clock_reads w' = clock_reads w \<and> opened w' = opened w"
  by (auto simp: tryRouteFile_def tryMoveFile_def tryDeleteFile_def split: if_splits)

lemma tryProcessZipFile_frame:
  assumes "tryProcessZipFile E zp cfg parser w = (r, w')"
  shows "clock_reads w' = clock_reads w \<and> opened w' = opened w @ [zp]"
  using assms
  by (auto simp: tryProcessZipFile_def Let_def split: prod.splits sum.splits if_splits
      dest!: processFiles_frame flushBatch_frame tryRouteFile_frame)

section \<open>Properties of the orchestrator\<close>

text \<open>
  The loop over the archives, when the clock stays at or above the buffer for the first
  \<open>k\<close> readings and, if archives remain, is below it at the next: the first \<open>k\<close>
  archives are attempted, in order, and nothing else.
\<close>

lemma processZips_loop_run:
  assumes paths: "\<forall>z \<in> set zs. path_join E (sourceDir cfg) z \<noteq> []"
      and k: "k \<le> length zs"
      and before: "\<forall>j<k. timeoutBufferMs cfg \<le> getRemainingTimeInMillis E (clock_reads w + j)"
      and at_k: "k < length zs \<longrightarrow> getRemainingTimeInMillis E (clock_reads w + k) < timeoutBufferMs cfg"
  shows "\<exists>w'. processZips_loop E cfg parser zs ok bad w =
           (Inr (ok @ valuesOf (attempts E cfg parser (map (path_join E (sourceDir cfg)) (take k zs)) w),
                 bad @ errorsOf (attempts E cfg parser (map (path_join E (sourceDir cfg)) (take k zs)) w),
                 k < length zs), w') \<and>
         clock_reads w' = clock_reads w + k + (if k < length zs then 1 else 0) \<and>
         opened w' = opened w @ map (path_join E (sourceDir cfg)) (take k zs)"
  using assms
proof (induction zs arbitrary: k ok bad w)
  case Nil
  then show ?case by simp
next
  case (Cons z zs)
  show ?case
  proof (cases k)
    case 0
    then show ?thesis using Cons.prems by (simp add: Let_def)
  next
    case (Suc k')
    define w1 where "w1 = w\<lparr>clock_reads := clock_reads w + 1\<rparr>"
    define zp where "zp = path_join E (sourceDir cfg) z"
    obtain r w2 where run: "tryProcessZipFile E zp cfg parser w1 = (r, w2)"
      by (cases "tryProcessZipFile E zp cfg parser w1")
    have run': "tryProcessZipFile E zp cfg parser (w\<lparr>clock_reads := Suc (clock_reads w)\<rparr>) = (r, w2)"
      using run by (simp add: w1_def)
    have fr: "clock_reads w2 = clock_reads w + 1" "opened w2 = opened w @ [zp]"
      using tryProcessZipFile_frame[OF run] by (simp_all add: w1_def)
    have time: "\<not> getRemainingTimeInMillis E (clock_reads w) < timeoutBufferMs cfg"
      using Cons.prems(3) Suc by (auto simp: not_less dest: spec[of _ 0])
    have fp: "FilePath zp = Inr zp" using Cons.prems(1) by (simp add: FilePath_def zp_def)
    have p': "\<forall>z \<in> set zs. path_join E (sourceDir cfg) z \<noteq> []" using Cons.prems(1) by simp
    have k': "k' \<le> length zs" using Cons.prems(2) Suc by simp
    have b': "\<forall>j<k'. timeoutBufferMs cfg \<le> getRemainingTimeInMillis E (clock_reads w2 + j)"
    proof (intro allI impI)
      fix j assume "j < k'"
      then have "Suc j < k" using Suc by simp
      from Cons.prems(3)[rule_format, OF this] show "timeoutBufferMs cfg \<le> getRemainingTimeInMillis E (clock_reads w2 + j)"
        by (simp add: fr)
    qed
    have a': "k' < length zs \<longrightarrow> getRemainingTimeInMillis E (clock_reads w2 + k') < timeoutBufferMs cfg"
      using Cons.prems(4) Suc by (simp add: fr)
    have att: "attempts E cfg parser (map (path_join E (sourceDir cfg)) (take k (z # zs))) w =
        r # attempts E cfg parser (map (path_join E (sourceDir cfg)) (take k' zs)) w2"
      using run by (simp add: Suc zp_def w1_def)
    show ?thesis
    proof (cases r)
      case (Inl f)
      from Cons.IH[OF p' k' b' a', of ok "bad @ [f]"]
      obtain w' where IH: "processZips_loop E cfg parser zs ok (bad @ [f]) w2 =
           (Inr (ok @ valuesOf (attempts E cfg parser (map (path_join E (sourceDir cfg)) (take k' zs)) w2),
                 (bad @ [f]) @ errorsOf (attempts E cfg parser (map (path_join E (sourceDir cfg)) (take k' zs)) w2),
                 k' < length zs), w')"
         "clock_reads w' = clock_reads w2 + k' + (if k' < length zs then 1 else 0)"
         "opened w' = opened w2 @ map (path_join E (sourceDir cfg)) (take k' zs)"
        by blast
      have "processZips_loop E cfg parser (z # zs) ok bad w =
            processZips_loop E cfg parser zs ok (bad @ [f]) w2"
        using time fp run' Inl by (simp add: Let_def zp_def[symmetric])
      then show ?thesis
        unfolding att using IH Inl Suc fr by (simp add: zp_def)
    next
      case (Inr v)
      from Cons.IH[OF p' k' b' a', of "ok @ [v]" bad]
      obtain w' where IH: "processZips_loop E cfg parser zs (ok @ [v]) bad w2 =
           (Inr ((ok @ [v]) @ valuesOf (attempts E cfg parser (map (path_join E (sourceDir cfg)) (take k' zs)) w2),
                 bad @ errorsOf (attempts E cfg parser (map (path_join E (sourceDir cfg)) (take k' zs)) w2),
                 k' < length zs), w')"
         "clock_reads w' = clock_reads w2 + k' + (if k' < length zs then 1 else 0)"
         "opened w' = opened w2 @ map (path_join E (sourceDir cfg)) (take k' zs)"
        by blast
      have "processZips_loop E cfg parser (z # zs) ok bad w =
            processZips_loop E cfg parser zs (ok @ [v]) bad w2"
        using time fp run' Inr by (simp add: Let_def zp_def[symmetric])
      then show ?thesis
        unfolding att using IH Inr Suc fr by (simp add: zp_def)
    qed
  qed
qed

lemma attempts_length: "length (attempts E cfg parser ps w) = length ps"
  by (induction ps arbitrary: w) (auto simp: Let_def split: prod.splits)


section \<open>Properties of the archive processor and of the invocation\<close>

lemmas eval_defs = tryProcessZipFile_def initialLocals_def processFile_def flushBatch_def dedupe_def
  extractZipStreaming_def openReadStream_def effectiveMaxEntries_def effectiveMaxEntrySize_def
  noOptions_def
  DEFAULT_MAX_ENTRIES_def DEFAULT_MAX_ENTRY_SIZE_def
  tryRouteFile_def tryMoveFile_def tryDeleteFile_def
  tryUploadBatch_def uploadFilesInChunks_returns UPLOAD_CONCURRENCY_def tryUploadFile_def putObjectCommand_def
  partitionResults_def S3Key_def S3_KEY_MAX_LENGTH_def S3Prefix_def joinS3Path_def stripSlashes_def
  exampleEnv_def exampleConfig_def world0_def entryOf_def endsWith_def
  uuidA_def uuidB_def Let_def plainParser_def

lemmas list_defs = processZips_def createContentParser_def regexOf_def tryListZipFiles_def
  isValidZipFile_def startsWith_def FilePath_def slice_list_def clampIndex_def

lemma length_tenMiB: "length tenMiB = 10485760"
  by (simp add: tenMiB_def)

lemma replicate_21: "replicate 21 x = [x,x,x,x,x,x,x,x,x,x,x,x,x,x,x,x,x,x,x,x,x]"
  by (simp add: numeral_eq_Suc)

text \<open>
  Claim C4. The remaining time is read once before each archive and nowhere else. Let
  the listing succeed and let \<open>zipFiles\<close> be the eligible archives, in listing order. If
  the remaining time is at least the buffer at each of the first \<open>k\<close> readings and, when
  there is a \<open>k+1\<close>-st archive, below the buffer at the next reading, then the invocation
  returns; \<open>stoppedEarly\<close> is set exactly when an archive was left; the results are
  exactly those of the first \<open>k\<close> archives, in listing order, each run to completion;
  exactly these \<open>k\<close> archives were opened; and the clock was read once per started
  archive plus once for the archive that was refused.
\<close>

theorem deadline_gate:
  assumes parser: "createContentParser (newRegExp E) (filenamePattern cfg) (filterPattern cfg) = Inr parser"
      and listing: "tryListZipFiles E (sourceDir cfg) (minFileAgeMs cfg) = Inr (Inr listing)"
      and zs: "zipFiles = slice_list (ZipListResult.files listing) 0 (int (maxFilesPerInvocation cfg))"
      and paths: "\<forall>z \<in> set zipFiles. path_join E (sourceDir cfg) z \<noteq> []"
      and k: "k \<le> length zipFiles"
      and before: "\<forall>j<k. timeoutBufferMs cfg \<le> getRemainingTimeInMillis E (clock_reads w + j)"
      and at_k: "k < length zipFiles \<longrightarrow> getRemainingTimeInMillis E (clock_reads w + k) < timeoutBufferMs cfg"
  shows "\<exists>r w'. processZips E cfg w = (Inr r, w') \<and>
           stoppedEarly r = (k < length zipFiles) \<and>
           successes r = valuesOf (attempts E cfg parser (map (path_join E (sourceDir cfg)) (take k zipFiles)) w) \<and>
           failures r = errorsOf (attempts E cfg parser (map (path_join E (sourceDir cfg)) (take k zipFiles)) w) \<and>
           zipsProcessed r + zipsFailed r = k \<and>
           opened w' = opened w @ map (path_join E (sourceDir cfg)) (take k zipFiles) \<and>
           clock_reads w' = clock_reads w + k + (if k < length zipFiles then 1 else 0)"
proof (cases "length zipFiles = 0")
  case True
  then have "k = 0" using k by simp
  then show ?thesis
    unfolding processZips_def parser listing sum.case Let_def zs[symmetric]
    using True by (simp add: noResult_def)
next
  case False
  let ?A = "attempts E cfg parser (map (path_join E (sourceDir cfg)) (take k zipFiles)) w"
  from processZips_loop_run[OF paths k before at_k, of parser "[]" "[]"]
  obtain w' where run: "processZips_loop E cfg parser zipFiles [] [] w =
           (Inr (valuesOf ?A, errorsOf ?A, k < length zipFiles), w')"
      "clock_reads w' = clock_reads w + k + (if k < length zipFiles then 1 else 0)"
      "opened w' = opened w @ map (path_join E (sourceDir cfg)) (take k zipFiles)"
    by auto
  have len: "length (valuesOf ?A) + length (errorsOf ?A) = k"
    using partition_lengths[of ?A] k by (simp add: attempts_length)
  show ?thesis
    unfolding processZips_def parser listing sum.case Let_def zs[symmetric]
    using False run len by simp
qed

text \<open>
  Three archives, and a clock that falls below the buffer after the first: the first
  archive is processed in full, the invocation stops early, and the other two are never
  opened.
\<close>

theorem deadline_gate_witness:
  "\<exists>r w'. processZips gateEnv exampleConfig world0 = (Inr r, w') \<and>
     stoppedEarly r \<and>
     successes r = [\<lparr>zipPath = ''/in/a.zip'', ZipSuccess.filesExtracted = 1,
                     ZipSuccess.filesUploaded = 1, filesFiltered = 0\<rparr>] \<and>
     failures r = [] \<and>
     zipsProcessed r + zipsFailed r = 1 \<and>
     opened w' = [''/in/a.zip''] \<and>
     clock_reads w' = 2"
proof -
  have parser: "createContentParser (newRegExp gateEnv) (filenamePattern exampleConfig) (filterPattern exampleConfig) = Inr plainParser"
    by (simp add: createContentParser_def regexOf_def gateEnv_def exampleEnv_def exampleConfig_def plainParser_def)
  have listing: "tryListZipFiles gateEnv (sourceDir exampleConfig) (minFileAgeMs exampleConfig) =
      Inr (Inr \<lparr>ZipListResult.files = [''a.zip'', ''b.zip'', ''c.zip''], oldestAgeMs = 60000\<rparr>)"
    by (simp add: tryListZipFiles_def isValidZipFile_def endsWith_def startsWith_def FilePath_def
        gateEnv_def exampleEnv_def exampleConfig_def)
  have zs: "[''a.zip'', ''b.zip'', ''c.zip''] =
      slice_list (ZipListResult.files \<lparr>ZipListResult.files = [''a.zip'', ''b.zip'', ''c.zip''], oldestAgeMs = 60000\<rparr>) 0
        (int (maxFilesPerInvocation exampleConfig))"
    by (simp add: slice_list_def clampIndex_def exampleConfig_def)
  have paths: "\<forall>z \<in> set [''a.zip'', ''b.zip'', ''c.zip'']. path_join gateEnv (sourceDir exampleConfig) z \<noteq> []"
    by (simp add: gateEnv_def exampleEnv_def)
  have k: "(1::nat) \<le> length [''a.zip'', ''b.zip'', ''c.zip'']" by simp
  have before: "\<forall>j<1. timeoutBufferMs exampleConfig \<le> getRemainingTimeInMillis gateEnv (clock_reads world0 + j)"
    by (simp add: gateEnv_def exampleEnv_def exampleConfig_def world0_def)
  have at_k: "1 < length [''a.zip'', ''b.zip'', ''c.zip''] \<longrightarrow>
      getRemainingTimeInMillis gateEnv (clock_reads world0 + 1) < timeoutBufferMs exampleConfig"
    by (simp add: gateEnv_def exampleEnv_def exampleConfig_def world0_def)
  have one: "fst (tryProcessZipFile gateEnv ''/in/a.zip'' exampleConfig plainParser
                (world0\<lparr>clock_reads := clock_reads world0 + 1\<rparr>)) =
     Inr \<lparr>zipPath = ''/in/a.zip'', ZipSuccess.filesExtracted = 1,
                        ZipSuccess.filesUploaded = 1, filesFiltered = 0\<rparr>"
    by (simp add: gateEnv_def eval_defs)
  have ps: "map (path_join gateEnv (sourceDir exampleConfig)) (take 1 [''a.zip'', ''b.zip'', ''c.zip''])
      = [''/in/a.zip'']"
    by (simp add: gateEnv_def exampleEnv_def exampleConfig_def)
  have att1: "\<And>p w. attempts gateEnv exampleConfig plainParser [p] w =
      [fst (tryProcessZipFile gateEnv p exampleConfig plainParser (w\<lparr>clock_reads := clock_reads w + 1\<rparr>))]"
    by (simp add: Let_def split: prod.splits)
  have att: "attempts gateEnv exampleConfig plainParser [''/in/a.zip''] world0
      = [Inr \<lparr>zipPath = ''/in/a.zip'', ZipSuccess.filesExtracted = 1,
                        ZipSuccess.filesUploaded = 1, filesFiltered = 0\<rparr>]"
    unfolding att1 one ..
  from deadline_gate[OF parser listing zs paths k before at_k, unfolded ps att]
  show ?thesis
    by (auto simp: world0_def numeral_2_eq_2)
qed

text \<open>
  Claim C1. An archive with no entries: nothing is uploaded and nothing fails. The
  archive is moved to the failed directory, and yet the result returned is a success,
  with zero files uploaded, not a failure.
\<close>

theorem empty_archive_reported_ok:
  "tryProcessZipFile exampleEnv ''/in/a.zip'' exampleConfig plainParser world0 =
     (Inr \<lparr>zipPath = ''/in/a.zip'', ZipSuccess.filesExtracted = 0, ZipSuccess.filesUploaded = 0,
          filesFiltered = 0\<rparr>,
      world0\<lparr>uuid_calls := 1, opened := [''/in/a.zip''],
             fs_log := [MoveFile ''/in/a.zip'' ''/failed'']\<rparr>)"
  by (simp add: eval_defs)

text \<open>
  Claim C3. One archive with one entry whose upload the store rejects: the archive is
  reported as failed because one file failed to upload, and the invocation reports
  \<open>totalFilesFailed = 0\<close>.
\<close>

theorem failed_upload_not_counted:
  "fst (processZips rejectingEnv exampleConfig world0) =
   Inr \<lparr>zipsProcessed = 0, zipsFailed = 1, totalFilesUploaded = 0, totalFilesFailed = 0,
        totalFilesFiltered = 0, successes = [],
        failures = [\<lparr>zipPath = ''/in/a.zip'', ZipSuccess.filesExtracted = 1,
                      ZipSuccess.filesUploaded = 0, filesFiltered = 0,
                      error = ZipErr (ZipError_extraction ''/in/a.zip'' (Some (FilesFailedToUpload 1)))\<rparr>],
        stoppedEarly = False\<rparr>"
  by (simp add: rejectingEnv_def list_defs eval_defs)

text \<open>
  Claim C2. An archive of twenty-one entries of ten mebibytes: the archive processor
  extracts and uploads all twenty-one, although together they are over the limit for
  the whole archive; the extractor that collects a whole archive refuses the same
  archive with the total-size error.
\<close>

theorem total_size_not_enforced:
  "fst (tryProcessZipFile oversizedEnv ''/in/a.zip'' exampleConfig plainParser world0) =
     Inr \<lparr>zipPath = ''/in/a.zip'', ZipSuccess.filesExtracted = 21, ZipSuccess.filesUploaded = 21,
          filesFiltered = 0\<rparr> \<and>
   DEFAULT_MAX_TOTAL_SIZE < 21 * length tenMiB \<and>
   extractZip (Opened oversizedEntries None) ''/in/a.zip'' noOptions =
     Inl (ZipError_tooLarge ''/in/a.zip'' DEFAULT_MAX_TOTAL_SIZE)"
  apply (intro conjI)
    apply (simp add: oversizedEnv_def oversizedEntries_def replicate_21 eval_defs length_tenMiB
      lastIndexOf_def includes_char_def slice_list_def sliceFrom_def clampIndex_def)
   apply (simp add: length_tenMiB DEFAULT_MAX_TOTAL_SIZE_def)
  apply (simp add: oversizedEntries_def replicate_21 extractZip_def effectiveMaxTotalSize_def
      DEFAULT_MAX_TOTAL_SIZE_def eval_defs length_tenMiB)
  done


section \<open>What the loop of the archive processor does with one file\<close>

text \<open>
  Flushing hands the pending batch, if it is not empty, to the uploader and empties it.
  A file the parser filters changes two counters. A file the parser keeps gets its name
  from \<open>dedupe\<close>, the name joins \<open>usedFilenames\<close>, and the file joins the pending batch,
  which is flushed when it reaches \<open>batchSize\<close>.
\<close>

lemma flushBatch_handed:
  assumes "flushBatch E cfg st w = (r, w')"
  shows "handed_off w' = handed_off w @
           (if currentBatch st = [] then []
            else [\<lparr>prefix = currentBatchPrefix st, files = currentBatch st\<rparr>])"
  using assms
  by (auto simp: flushBatch_def Let_def split: if_splits prod.splits sum.splits
      dest!: tryUploadBatch_frame)

lemma flushBatch_locals:
  assumes "flushBatch E cfg st w = (Inr st', w')"
  shows "currentBatch st' = [] \<and> usedFilenames st' = usedFilenames st"
  using assms
  by (auto simp: flushBatch_def Let_def split: if_splits prod.splits sum.splits BatchUploadResult.splits)

lemma processFile_filtered:
  "\<not> kept E parser f \<Longrightarrow>
   processFile E cfg parser f st w =
     (Inr (st\<lparr>filesExtracted := filesExtracted st + 1, filteredCount := filteredCount st + 1\<rparr>), w)"
  by (simp add: processFile_def kept_def Let_def)

lemma dedupe_handed: "handed_off (snd (dedupe E c st w)) = handed_off w"
  by (simp add: dedupe_def Let_def)

lemma processFile_kept:
  assumes k: "kept E parser f"
      and run: "processFile E cfg parser f st w = (Inr st', w')"
  shows "usedFilenames st' = insert (fst (dedupe E (candidateName E parser f) st w)) (usedFilenames st) \<and>
         (if batchSize cfg \<le> length (currentBatch st) + 1
          then handed_off w' = handed_off w @
                 [\<lparr>prefix = currentBatchPrefix st,
                   files = currentBatch st @
                     [\<lparr>key = fst (dedupe E (candidateName E parser f) st w),
                       content = ExtractedFile.content f\<rparr>]\<rparr>] \<and>
               currentBatch st' = []
          else handed_off w' = handed_off w \<and>
               currentBatch st' = currentBatch st @
                     [\<lparr>key = fst (dedupe E (candidateName E parser f) st w),
                       content = ExtractedFile.content f\<rparr>])"
proof -
  obtain nm w1 where d: "dedupe E (candidateName E parser f) st w = (nm, w1)"
    by (cases "dedupe E (candidateName E parser f) st w")
  have h1: "handed_off w1 = handed_off w" using dedupe_handed[of E "candidateName E parser f" st w] d by simp
  from k have nf: "\<not> shouldFilter parser (toString_utf8 E (ExtractedFile.content f))"
    by (simp add: kept_def)
  from d have d': "dedupe E (extractFilename parser (toString_utf8 E (ExtractedFile.content f)) (name f))
     (st\<lparr>filesExtracted := filesExtracted st + 1\<rparr>) w = (nm, w1)"
    by (simp add: candidateName_def dedupe_def)
  show ?thesis
  proof (cases "S3Key nm")
    case (Inl err)
    with run nf d' show ?thesis by (simp add: processFile_def Let_def)
  next
    case (Inr kk)
    then have kk: "kk = nm" by (rule S3Key_Inr)
    show ?thesis
    proof (cases "batchSize cfg \<le> length (currentBatch st) + 1")
      case True
      with run nf d' Inr kk have fl: "flushBatch E cfg
           (st\<lparr>filesExtracted := filesExtracted st + 1,
               usedFilenames := insert nm (usedFilenames st),
               currentBatch := currentBatch st @ [\<lparr>key = nm, content = ExtractedFile.content f\<rparr>]\<rparr>) w1
           = (Inr st', w')"
        by (simp add: processFile_def Let_def)
      from flushBatch_handed[OF fl] flushBatch_locals[OF fl] True h1 d show ?thesis by simp
    next
      case False
      with run nf d' Inr kk h1 d show ?thesis by (auto simp add: processFile_def Let_def)
    qed
  qed
qed


lemma processFile_assigned:
  assumes k: "kept E parser f"
      and run: "processFile E cfg parser f st w = (Inr st', w')"
      and n: "n \<le> length (handed_off w)"
  shows "assignedSince n w' st' = assignedSince n w st @
           [\<lparr>key = fst (dedupe E (candidateName E parser f) st w), content = ExtractedFile.content f\<rparr>] \<and>
         n \<le> length (handed_off w')"
  using processFile_kept[OF k run] n
  by (auto simp: assignedSince_def split: if_splits)

lemma processFile_handed:
  assumes run: "processFile E cfg parser f st w = (r, w')"
  shows "handed_off w' = handed_off w \<or>
         (kept E parser f \<and>
          handed_off w' = handed_off w @
             [\<lparr>prefix = currentBatchPrefix st,
               files = currentBatch st @
                 [\<lparr>key = fst (dedupe E (candidateName E parser f) st w),
                   content = ExtractedFile.content f\<rparr>]\<rparr>])"
proof (cases "kept E parser f")
  case False
  with run show ?thesis by (simp add: processFile_filtered)
next
  case True
  obtain nm w1 where d: "dedupe E (candidateName E parser f) st w = (nm, w1)"
    by (cases "dedupe E (candidateName E parser f) st w")
  have h1: "handed_off w1 = handed_off w" using dedupe_handed[of E "candidateName E parser f" st w] d by simp
  from True have nf: "\<not> shouldFilter parser (toString_utf8 E (ExtractedFile.content f))"
    by (simp add: kept_def)
  from d have d': "dedupe E (extractFilename parser (toString_utf8 E (ExtractedFile.content f)) (name f))
     (st\<lparr>filesExtracted := filesExtracted st + 1\<rparr>) w = (nm, w1)"
    by (simp add: candidateName_def dedupe_def)
  show ?thesis
  proof (cases "S3Key nm")
    case (Inl err)
    with run nf d' h1 show ?thesis by (auto simp add: processFile_def Let_def)
  next
    case (Inr kk)
    then have kk: "kk = nm" by (rule S3Key_Inr)
    show ?thesis
    proof (cases "batchSize cfg \<le> length (currentBatch st) + 1")
      case le: True
      with run nf d' Inr kk have fl: "flushBatch E cfg
           (st\<lparr>filesExtracted := filesExtracted st + 1,
               usedFilenames := insert nm (usedFilenames st),
               currentBatch := currentBatch st @ [\<lparr>key = nm, content = ExtractedFile.content f\<rparr>]\<rparr>) w1
           = (r, w')"
        by (simp add: processFile_def Let_def)
      from flushBatch_handed[OF fl] h1 d True show ?thesis by simp
    next
      case False
      with run nf d' Inr kk h1 d show ?thesis by (auto simp add: processFile_def Let_def)
    qed
  qed
qed

lemma processFiles_batches:
  assumes B: "0 < batchSize cfg"
  shows "processFiles E cfg parser items None st w = (Inr st', w') \<Longrightarrow>
     n \<le> length (handed_off w) \<Longrightarrow>
     \<forall>b \<in> set (drop n (handed_off w)). length (files b) = batchSize cfg \<Longrightarrow>
     length (currentBatch st) < batchSize cfg \<Longrightarrow>
     n \<le> length (handed_off w') \<and>
     (\<forall>b \<in> set (drop n (handed_off w')). length (files b) = batchSize cfg) \<and>
     length (currentBatch st') < batchSize cfg \<and>
     map content (assignedSince n w' st') =
       map content (assignedSince n w st) @ map ExtractedFile.content (filter (kept E parser) items)"
proof (induction items arbitrary: st w)
  case Nil
  then show ?case by simp
next
  case (Cons f items)
  from Cons.prems(1) obtain st1 w1 where
    one: "processFile E cfg parser f st w = (Inr st1, w1)" and
    more: "processFiles E cfg parser items None st1 w1 = (Inr st', w')"
    by (auto split: prod.splits sum.splits)
  show ?case
  proof (cases "kept E parser f")
    case False
    with one have eq: "st1 = st\<lparr>filesExtracted := filesExtracted st + 1, filteredCount := filteredCount st + 1\<rparr>"
      "w1 = w" by (simp_all add: processFile_filtered)
    have "assignedSince n w1 st1 = assignedSince n w st" by (simp add: eq assignedSince_def)
    with Cons.IH[OF more] Cons.prems(2-4) False show ?thesis by (simp add: eq)
  next
    case True
    note pk = processFile_kept[OF True one]
    note pa = processFile_assigned[OF True one Cons.prems(2)]
    have i1: "\<forall>b \<in> set (drop n (handed_off w1)). length (files b) = batchSize cfg"
      using pk Cons.prems(2-4) by (auto split: if_splits)
    have i2: "length (currentBatch st1) < batchSize cfg"
      using pk Cons.prems(4) B by (auto split: if_splits)
    from Cons.IH[OF more _ i1 i2] pa True show ?thesis by simp
  qed
qed


lemma full_batches_length:
  "\<forall>b \<in> set bs. length (files b) = B \<Longrightarrow> length (concat (map files bs)) = length bs * B"
  by (induction bs) simp_all

lemma batches_shape:
  fixes B :: nat
  assumes B: "0 < B"
      and full: "\<forall>b \<in> set full. length (files b) = B"
      and r: "length pending < B"
      and bs: "bs = full @ (if pending = [] then [] else [\<lparr>prefix = p, files = pending\<rparr>])"
      and N: "N = length (concat (map files bs))"
  shows "length bs = (N + B - 1) div B \<and>
         (\<forall>b \<in> set (butlast bs). length (files b) = B) \<and>
         (bs \<noteq> [] \<longrightarrow> length (files (last bs)) = (if N mod B = 0 then B else N mod B))"
proof (cases "pending = []")
  case True
  then have eq: "bs = full" using bs by simp
  have n: "N = length full * B" using N eq full_batches_length[OF full] by simp
  have 1: "(N + B - 1) div B = length full"
    by (rule div_nat_eqI) (use B n in \<open>auto simp: algebra_simps\<close>)
  have 2: "\<forall>b \<in> set (butlast bs). length (files b) = B"
    using full eq by (auto dest: in_set_butlastD)
  have 3: "bs \<noteq> [] \<longrightarrow> length (files (last bs)) = B" using full eq by auto
  from 1 2 3 n eq show ?thesis by simp
next
  case False
  then have eq: "bs = full @ [\<lparr>prefix = p, files = pending\<rparr>]" using bs by simp
  have n: "N = length full * B + length pending" using N eq full_batches_length[OF full] by simp
  have pos: "0 < length pending" using False by simp
  have e: "N + B - 1 = (length pending - 1) + Suc (length full) * B" using n False by (cases pending) simp_all
  have "length pending - 1 < B" using r by simp
  then have "((length pending - 1) + Suc (length full) * B) div B = Suc (length full)"
    using B by (simp only: div_mult_self1 div_less)
  then have 1: "(N + B - 1) div B = Suc (length full)" by (simp only: e)
  have 2: "\<forall>b \<in> set (butlast bs). length (files b) = B" using full eq by simp
  have m: "N mod B = length pending" using n r by simp
  from 1 2 m pos eq show ?thesis by simp
qed

text \<open>
  Claim C8. For every batch capacity \<open>B > 0\<close>: \<open>createBatches\<close> returns, for a list of
  \<open>N\<close> files, \<open>\<lceil>N/B\<rceil>\<close> batches that hold the files in their order, every batch but the
  last with exactly \<open>B\<close> files and the last with \<open>N mod B\<close> files, or \<open>B\<close> when \<open>B\<close>
  divides \<open>N\<close>. The same holds for the batches the archive processor assembles while
  it reads an archive: when the loop over the extracted items and the final flush end
  without a throw, the batches handed to the uploader hold the contents of the \<open>N\<close> kept
  items in their order, there are \<open>\<lceil>N/B\<rceil>\<close> of them, every one but the last has \<open>B\<close>
  files and the last has \<open>N mod B\<close>, or \<open>B\<close> when \<open>B\<close> divides \<open>N\<close>.
\<close>

theorem batch_shape:
  assumes B: "0 < B"
  shows "(\<exists>bs w'. createBatches E fs prefixBase B w = Some (bs, w') \<and>
            concat (map files bs) = fs \<and>
            length bs = (length fs + B - 1) div B \<and>
            (\<forall>b \<in> set (butlast bs). length (files b) = B) \<and>
            (bs \<noteq> [] \<longrightarrow> length (files (last bs)) =
               (if length fs mod B = 0 then B else length fs mod B))) \<and>
         (batchSize cfg = B \<and> currentBatch st = [] \<and>
          processFiles E cfg parser items None st v = (Inr st1, v1) \<and>
          flushBatch E cfg st1 v1 = (Inr st2, v2) \<longrightarrow>
            map content (concat (map files (drop (length (handed_off v)) (handed_off v2)))) =
              map ExtractedFile.content (filter (kept E parser) items) \<and>
            length (drop (length (handed_off v)) (handed_off v2)) =
              (length (filter (kept E parser) items) + B - 1) div B \<and>
            (\<forall>b \<in> set (butlast (drop (length (handed_off v)) (handed_off v2))). length (files b) = B) \<and>
            (drop (length (handed_off v)) (handed_off v2) \<noteq> [] \<longrightarrow>
               length (files (last (drop (length (handed_off v)) (handed_off v2)))) =
                 (if length (filter (kept E parser) items) mod B = 0 then B
                  else length (filter (kept E parser) items) mod B)))"
proof (intro conjI impI)
  show "\<exists>bs w'. createBatches E fs prefixBase B w = Some (bs, w') \<and>
            concat (map files bs) = fs \<and>
            length bs = (length fs + B - 1) div B \<and>
            (\<forall>b \<in> set (butlast bs). length (files b) = B) \<and>
            (bs \<noteq> [] \<longrightarrow> length (files (last bs)) =
               (if length fs mod B = 0 then B else length fs mod B))"
    using createBatches_loop_shape[OF B, of E fs prefixBase 0 "[]" w]
    unfolding createBatches_def by auto
next
  assume a: "batchSize cfg = B \<and> currentBatch st = [] \<and>
          processFiles E cfg parser items None st v = (Inr st1, v1) \<and>
          flushBatch E cfg st1 v1 = (Inr st2, v2)"
  define n where "n = length (handed_off v)"
  define bs where "bs = drop n (handed_off v2)"
  define N where "N = length (filter (kept E parser) items)"
  from a have cB: "0 < batchSize cfg" and run: "processFiles E cfg parser items None st v = (Inr st1, v1)"
    and fl: "flushBatch E cfg st1 v1 = (Inr st2, v2)" and st: "currentBatch st = []"
    and BB: "batchSize cfg = B"
    using B by auto
  have inv: "n \<le> length (handed_off v1) \<and>
     (\<forall>b \<in> set (drop n (handed_off v1)). length (files b) = batchSize cfg) \<and>
     length (currentBatch st1) < batchSize cfg \<and>
     map content (assignedSince n v1 st1) =
       map content (assignedSince n v st) @ map ExtractedFile.content (filter (kept E parser) items)"
    by (rule processFiles_batches[OF cB run]) (use st cB in \<open>auto simp: n_def\<close>)
  have a0: "assignedSince n v st = []" by (simp add: assignedSince_def n_def st)
  have h2: "bs = drop n (handed_off v1) @
      (if currentBatch st1 = [] then []
       else [\<lparr>prefix = currentBatchPrefix st1, files = currentBatch st1\<rparr>])"
    using flushBatch_handed[OF fl] inv by (simp add: bs_def)
  have cat: "concat (map files bs) = assignedSince n v1 st1"
    unfolding h2 assignedSince_def by simp
  have items: "map content (concat (map files bs)) = map ExtractedFile.content (filter (kept E parser) items)"
    using inv a0 cat by simp
  then have "length (map content (concat (map files bs))) = N" by (simp add: N_def)
  then have len: "N = length (concat (map files bs))" by simp
  from batches_shape[OF B _ _ h2 len] inv BB
  have shape: "length bs = (N + B - 1) div B \<and>
         (\<forall>b \<in> set (butlast bs). length (files b) = B) \<and>
         (bs \<noteq> [] \<longrightarrow> length (files (last bs)) = (if N mod B = 0 then B else N mod B))"
    by simp
  show "map content (concat (map files (drop (length (handed_off v)) (handed_off v2)))) =
              map ExtractedFile.content (filter (kept E parser) items)"
    using items by (simp add: bs_def n_def)
  show "length (drop (length (handed_off v)) (handed_off v2)) =
              (length (filter (kept E parser) items) + B - 1) div B"
    using shape unfolding bs_def n_def N_def by blast
  show "\<forall>b \<in> set (butlast (drop (length (handed_off v)) (handed_off v2))). length (files b) = B"
    using shape unfolding bs_def n_def N_def by blast
  assume "drop (length (handed_off v)) (handed_off v2) \<noteq> []"
  then show "length (files (last (drop (length (handed_off v)) (handed_off v2)))) =
                 (if length (filter (kept E parser) items) mod B = 0 then B
                  else length (filter (kept E parser) items) mod B)"
    using shape unfolding bs_def n_def N_def by blast
qed

text \<open>
  Three files with a capacity of two: two batches, the last with one file, from
  \<open>createBatches\<close> and from the loop of the archive processor alike.
\<close>

theorem batch_shape_witness:
  "(\<exists>bs w'. createBatches exampleEnv threeUploads ''uploads'' 2 world0 = Some (bs, w') \<and>
      concat (map files bs) = threeUploads \<and> length bs = 2 \<and> length (files (last bs)) = 1) \<and>
   (\<exists>st1 v1 st2 v2.
      processFiles exampleEnv smallBatches plainParser threeFiles None
          (initialLocals exampleEnv smallBatches world0) world0 = (Inr st1, v1) \<and>
      flushBatch exampleEnv smallBatches st1 v1 = (Inr st2, v2) \<and>
      map content (concat (map files (handed_off v2))) = [[1], [2], [3]] \<and>
      length (handed_off v2) = 2 \<and>
      length (files (last (handed_off v2))) = 1)"
proof -
  have run: "\<exists>st1 v1 st2 v2.
      processFiles exampleEnv smallBatches plainParser threeFiles None
          (initialLocals exampleEnv smallBatches world0) world0 = (Inr st1, v1) \<and>
      flushBatch exampleEnv smallBatches st1 v1 = (Inr st2, v2)"
    by (simp add: smallBatches_def threeFiles_def eval_defs)
  then obtain st1 v1 st2 v2 where
    loop: "processFiles exampleEnv smallBatches plainParser threeFiles None
          (initialLocals exampleEnv smallBatches world0) world0 = (Inr st1, v1)" and
    fl: "flushBatch exampleEnv smallBatches st1 v1 = (Inr st2, v2)"
    by blast
  have B: "batchSize smallBatches = 2" by (simp add: smallBatches_def exampleConfig_def)
  have st: "currentBatch (initialLocals exampleEnv smallBatches world0) = []"
    by (simp add: initialLocals_def)
  have keep: "filter (kept exampleEnv plainParser) threeFiles = threeFiles"
    by (simp add: kept_def plainParser_def threeFiles_def)
  have two: "(0::nat) < 2" by simp
  note inst = batch_shape[OF two, where E = exampleEnv and fs = threeUploads and prefixBase = "''uploads''"
      and w = world0 and cfg = smallBatches and st = "initialLocals exampleEnv smallBatches world0"
      and parser = plainParser and items = threeFiles and v = world0 and ?st1.0 = st1 and ?v1.0 = v1
      and ?st2.0 = st2 and ?v2.0 = v2]
  from inst have a: "\<exists>bs w'. createBatches exampleEnv threeUploads ''uploads'' 2 world0 = Some (bs, w') \<and>
      concat (map files bs) = threeUploads \<and> length bs = 2 \<and> length (files (last bs)) = 1"
    by (auto simp: threeUploads_def)
  from inst B st loop fl have b: "map content (concat (map files (handed_off v2))) = [[1], [2], [3]] \<and>
      length (handed_off v2) = 2 \<and>
      length (files (last (handed_off v2))) = 1"
    unfolding keep by (auto simp: threeFiles_def world0_def)
  have c: "\<exists>st1 v1 st2 v2.
      processFiles exampleEnv smallBatches plainParser threeFiles None
          (initialLocals exampleEnv smallBatches world0) world0 = (Inr st1, v1) \<and>
      flushBatch exampleEnv smallBatches st1 v1 = (Inr st2, v2) \<and>
      map content (concat (map files (handed_off v2))) = [[1], [2], [3]] \<and>
      length (handed_off v2) = 2 \<and>
      length (files (last (handed_off v2))) = 1"
    apply (rule exI[of _ st1])
    apply (rule exI[of _ v1])
    apply (rule exI[of _ st2])
    apply (rule exI[of _ v2])
    apply (rule conjI[OF loop conjI[OF fl b]])
    done
  show ?thesis by (rule conjI[OF a c])
qed


section \<open>Properties of the naming of files\<close>

text \<open>
  \<open>lastIndexOf\<close> finds the last occurrence, so \<open>dedupe\<close> splits a used name at its last
  \<open>.\<close>; a name that is not used is returned as it is.
\<close>

lemma lastIndexOf_from_absent: "c \<notin> set xs \<Longrightarrow> lastIndexOf_from xs c i found = found"
  by (induction xs arbitrary: i) auto

lemma lastIndexOf_from_split:
  "c \<notin> set ext \<Longrightarrow> lastIndexOf_from (base @ c # ext) c i found = int (i + length base)"
  by (induction base arbitrary: i found) (simp_all add: lastIndexOf_from_absent)

lemma lastIndexOf_split: "c \<notin> set ext \<Longrightarrow> lastIndexOf (base @ c # ext) c = int (length base)"
  by (simp add: lastIndexOf_def lastIndexOf_from_split)

lemma slice_list_prefix: "slice_list (base @ xs) 0 (int (length base)) = base"
  by (simp add: slice_list_def clampIndex_def)

lemma sliceFrom_suffix: "sliceFrom (base @ xs) (int (length base)) = xs"
  by (simp add: sliceFrom_def clampIndex_def)

lemma slice_list_head: "slice_list u 0 8 = take 8 u"
  by (simp add: slice_list_def clampIndex_def min_def)

lemma dedupe_unused: "c \<notin> usedFilenames st \<Longrightarrow> dedupe E c st w = (c, w)"
  by (simp add: dedupe_def)

lemma dedupe_used_ext:
  assumes "c \<in> usedFilenames st" "c = base @ CHR ''.'' # ext" "CHR ''.'' \<notin> set ext"
  shows "dedupe E c st w =
           (base @ ''-'' @ take 8 (uuid E (uuid_calls w)) @ CHR ''.'' # ext,
            w\<lparr>uuid_calls := uuid_calls w + 1\<rparr>)"
  using assms
  by (simp add: dedupe_def Let_def includes_char_def lastIndexOf_split slice_list_prefix
      sliceFrom_suffix slice_list_head)

lemma dedupe_used_plain:
  assumes "c \<in> usedFilenames st" "CHR ''.'' \<notin> set c"
  shows "dedupe E c st w =
           (c @ ''-'' @ take 8 (uuid E (uuid_calls w)), w\<lparr>uuid_calls := uuid_calls w + 1\<rparr>)"
  using assms by (simp add: dedupe_def Let_def includes_char_def slice_list_head)

lemma isUuid_head: "isUuid u \<Longrightarrow> length (take 8 u) = 8 \<and> list_all isHexDigit (take 8 u)"
  by (simp add: isUuid_def)

lemma dedupe_used:
  assumes used: "c \<in> usedFilenames st"
  shows "if CHR ''.'' \<in> set c
         then \<exists>base ext. c = base @ ''.'' @ ext \<and> CHR ''.'' \<notin> set ext \<and>
                dedupe E c st w =
                  (base @ ''-'' @ take 8 (uuid E (uuid_calls w)) @ ''.'' @ ext,
                   w\<lparr>uuid_calls := uuid_calls w + 1\<rparr>)
         else dedupe E c st w =
                (c @ ''-'' @ take 8 (uuid E (uuid_calls w)), w\<lparr>uuid_calls := uuid_calls w + 1\<rparr>)"
proof (cases "CHR ''.'' \<in> set c")
  case True
  then obtain base ext where sp: "c = base @ CHR ''.'' # ext" "CHR ''.'' \<notin> set ext"
    by (auto dest: split_list_last)
  from dedupe_used_ext[OF used sp] sp True show ?thesis by auto
next
  case False
  from dedupe_used_plain[OF used False] False show ?thesis by simp
qed

lemma processFile_given:
  assumes k: "kept E parser f"
      and run: "processFile E cfg parser f st w = (Inr st', w')"
      and n: "n \<le> length (handed_off w)"
  shows "givenNames n w' st' = givenNames n w st @ [fst (dedupe E (candidateName E parser f) st w)]"
  using processFile_assigned[OF k run n] by (simp add: givenNames_def)

lemma processFiles_names:
  "processFiles E cfg parser items None st w = (Inr st', w') \<Longrightarrow>
   n \<le> length (handed_off w) \<Longrightarrow>
   usedFilenames st = set (givenNames n w st) \<Longrightarrow>
   n \<le> length (handed_off w') \<and> usedFilenames st' = set (givenNames n w' st')"
proof (induction items arbitrary: st w)
  case Nil
  then show ?case by simp
next
  case (Cons f items)
  from Cons.prems(1) obtain st1 w1 where
    one: "processFile E cfg parser f st w = (Inr st1, w1)" and
    rest: "processFiles E cfg parser items None st1 w1 = (Inr st', w')"
    by (auto split: prod.splits sum.splits)
  show ?case
  proof (cases "kept E parser f")
    case False
    with one have eq: "st1 = st\<lparr>filesExtracted := filesExtracted st + 1, filteredCount := filteredCount st + 1\<rparr>"
      "w1 = w" by (simp_all add: processFile_filtered)
    have "givenNames n w1 st1 = givenNames n w st" by (simp add: eq givenNames_def assignedSince_def)
    with Cons.IH[OF rest] Cons.prems(2,3) show ?thesis by (simp add: eq)
  next
    case True
    from processFile_kept[OF True one] processFile_given[OF True one Cons.prems(2)]
      processFile_assigned[OF True one Cons.prems(2)] Cons.prems(3)
    have "n \<le> length (handed_off w1)" "usedFilenames st1 = set (givenNames n w1 st1)"
      by auto
    from Cons.IH[OF rest this] show ?thesis .
  qed
qed

lemma handedNames_prefix:
  "n \<le> length (handed_off w) \<Longrightarrow> distinct (givenNames n w st) \<Longrightarrow> distinct (handedNames n w)"
  by (simp add: givenNames_def handedNames_def assignedSince_def)

lemma fresh_name:
  assumes fr: "disambiguatorsFresh E cfg parser (f # later) st w" and k: "kept E parser f"
  shows "fst (dedupe E (candidateName E parser f) st w) \<notin> usedFilenames st"
proof (cases "candidateName E parser f \<in> usedFilenames st")
  case True
  with fr k show ?thesis by simp
next
  case False
  then show ?thesis by (simp add: dedupe_unused)
qed

lemma processFiles_fresh:
  "disambiguatorsFresh E cfg parser (items @ later) st w \<Longrightarrow>
   n \<le> length (handed_off w) \<Longrightarrow>
   usedFilenames st = set (givenNames n w st) \<Longrightarrow>
   distinct (givenNames n w st) \<Longrightarrow>
   processFiles E cfg parser items stop st w = (r, w') \<Longrightarrow>
   distinct (handedNames n w') \<and>
   (\<forall>st'. r = Inr st' \<longrightarrow>
      n \<le> length (handed_off w') \<and> usedFilenames st' = set (givenNames n w' st') \<and>
      distinct (givenNames n w' st') \<and> disambiguatorsFresh E cfg parser later st' w')"
proof (induction items arbitrary: st w)
  case Nil
  then show ?case by (auto split: option.splits dest: handedNames_prefix)
next
  case (Cons f items)
  obtain r1 w1 where one: "processFile E cfg parser f st w = (r1, w1)"
    by (cases "processFile E cfg parser f st w")
  show ?case
  proof (cases "kept E parser f")
    case False
    with one have eq: "r1 = Inr (st\<lparr>filesExtracted := filesExtracted st + 1, filteredCount := filteredCount st + 1\<rparr>)"
      "w1 = w" by (simp_all add: processFile_filtered)
    have g: "givenNames n w (st\<lparr>filesExtracted := filesExtracted st + 1, filteredCount := filteredCount st + 1\<rparr>)
        = givenNames n w st" by (simp add: givenNames_def assignedSince_def)
    from Cons.prems(1) one eq
    have fr: "disambiguatorsFresh E cfg parser (items @ later)
       (st\<lparr>filesExtracted := filesExtracted st + 1, filteredCount := filteredCount st + 1\<rparr>) w"
      by simp
    from Cons.prems(5) one eq
    have rest: "processFiles E cfg parser items stop
       (st\<lparr>filesExtracted := filesExtracted st + 1, filteredCount := filteredCount st + 1\<rparr>) w = (r, w')"
      by simp
    show ?thesis
      by (rule Cons.IH[OF fr Cons.prems(2) _ _ rest]) (use Cons.prems(3,4) g in simp_all)
  next
    case True
    define nm where "nm = fst (dedupe E (candidateName E parser f) st w)"
    have fr0: "disambiguatorsFresh E cfg parser (f # (items @ later)) st w"
      using Cons.prems(1) by (simp only: append_Cons)
    have new: "nm \<notin> set (givenNames n w st)"
      using fresh_name[OF fr0 True] unfolding nm_def Cons.prems(3) .
    have d1: "distinct (givenNames n w st @ [nm])" using new Cons.prems(4) by simp
    show ?thesis
    proof (cases r1)
      case (Inl thrown)
      with Cons.prems(5) one have r: "r = Inl thrown" "w' = w1" by simp_all
      from processFile_handed[OF one] have
        "handedNames n w1 = handedNames n w \<or>
         handedNames n w1 = handedNames n w @ map key (currentBatch st) @ [nm]"
        using Cons.prems(2) by (auto simp: handedNames_def nm_def)
      moreover have "handedNames n w @ map key (currentBatch st) = givenNames n w st"
        by (simp add: handedNames_def givenNames_def assignedSince_def)
      ultimately have "distinct (handedNames n w1)"
        using d1 handedNames_prefix[OF Cons.prems(2,4)] by (metis append.assoc)
      with r show ?thesis by simp
    next
      case (Inr st1)
      with one have one': "processFile E cfg parser f st w = (Inr st1, w1)" by simp
      from Cons.prems(5) one' have rest: "processFiles E cfg parser items stop st1 w1 = (r, w')"
        by simp
      from Cons.prems(1) one' have fr: "disambiguatorsFresh E cfg parser (items @ later) st1 w1"
        by simp
      note pa = processFile_assigned[OF True one' Cons.prems(2)]
      note pg = processFile_given[OF True one' Cons.prems(2)]
      note pk = processFile_kept[OF True one']
      have u: "usedFilenames st1 = set (givenNames n w1 st1)"
        using pk pg Cons.prems(3) by (simp add: nm_def)
      have d: "distinct (givenNames n w1 st1)" using pg d1 by (simp add: nm_def)
      from Cons.IH[OF fr _ u d rest] pa show ?thesis by simp
    qed
  qed
qed


lemma tryRouteFile_handed:
  "tryRouteFile E p ok a f d w = (r, w') \<Longrightarrow> handed_off w' = handed_off w"
  by (auto simp: tryRouteFile_def tryMoveFile_def tryDeleteFile_def split: if_splits)

lemma tryProcessZipFile_handed:
  assumes ex: "extractZipStreaming (yauzl_open E zp) zp noOptions = (items, stop)"
      and loop: "processFiles E cfg parser items stop (initialLocals E cfg w0)
                   (w0\<lparr>uuid_calls := uuid_calls w0 + 1, opened := opened w0 @ [zp]\<rparr>) = (looped, w3)"
  shows "handed_off (snd (tryProcessZipFile E zp cfg parser w0)) =
           (case looped of Inl thrown \<Rightarrow> handed_off w3
            | Inr st \<Rightarrow> handed_off (snd (flushBatch E cfg st w3)))"
  using assms
  by (auto simp: tryProcessZipFile_def Let_def split: prod.splits sum.splits if_splits
      dest!: tryRouteFile_handed)

lemma attempt_distinct:
  assumes fr: "attemptFresh E zp cfg parser w0"
  shows "distinct (handedNames (length (handed_off w0)) (snd (tryProcessZipFile E zp cfg parser w0)))"
proof -
  define n where "n = length (handed_off w0)"
  define st0 where "st0 = initialLocals E cfg w0"
  define w2 where "w2 = w0\<lparr>uuid_calls := uuid_calls w0 + 1, opened := opened w0 @ [zp]\<rparr>"
  obtain items stop where ex: "extractZipStreaming (yauzl_open E zp) zp noOptions = (items, stop)"
    by (cases "extractZipStreaming (yauzl_open E zp) zp noOptions")
  obtain looped w3 where loop: "processFiles E cfg parser items stop st0 w2 = (looped, w3)"
    by (cases "processFiles E cfg parser items stop st0 w2")
  have fr': "disambiguatorsFresh E cfg parser (items @ []) st0 w2"
    using fr ex by (simp add: attemptFresh_def st0_def w2_def)
  have n0: "n \<le> length (handed_off w2)" by (simp add: n_def w2_def)
  have g0: "givenNames n w2 st0 = []"
    by (simp add: givenNames_def assignedSince_def n_def w2_def st0_def initialLocals_def)
  have u0: "usedFilenames st0 = set (givenNames n w2 st0)"
    unfolding g0 by (simp add: st0_def initialLocals_def)
  have d0: "distinct (givenNames n w2 st0)" unfolding g0 by simp
  note inv = processFiles_fresh[OF fr' n0 u0 d0 loop]
  note h = tryProcessZipFile_handed[OF ex loop[unfolded st0_def w2_def]]
  show ?thesis
  proof (cases looped)
    case (Inl thrown)
    with h have "handedNames n (snd (tryProcessZipFile E zp cfg parser w0)) = handedNames n w3"
      by (simp add: handedNames_def)
    with inv show ?thesis by (simp add: n_def)
  next
    case (Inr st)
    obtain flushed w4 where fl: "flushBatch E cfg st w3 = (flushed, w4)"
      by (cases "flushBatch E cfg st w3")
    from inv Inr have i: "n \<le> length (handed_off w3)" "distinct (givenNames n w3 st)" by simp_all
    from h Inr fl have "handed_off (snd (tryProcessZipFile E zp cfg parser w0)) = handed_off w4"
      by simp
    then have "handedNames n (snd (tryProcessZipFile E zp cfg parser w0)) = givenNames n w3 st"
      using flushBatch_handed[OF fl] i(1)
      by (simp add: handedNames_def givenNames_def assignedSince_def)
    with i show ?thesis by (simp add: n_def)
  qed
qed

lemmas name_defs = lastIndexOf_def includes_char_def slice_list_def sliceFrom_def clampIndex_def
  kept_def candidateName_def handedNames_def givenNames_def assignedSince_def attemptFresh_def

text \<open>
  Claim C7, as stated, fails for a candidate name that equals a name generated earlier
  in the attempt. The entries are \<open>a.xml\<close>, \<open>a.xml\<close> and \<open>a-9f8e7d6c.xml\<close>; the second
  is given the name \<open>a-9f8e7d6c.xml\<close>, which was new when it was generated. The third
  candidate occurs for the first time, and it does not pass unchanged: it is given
  \<open>a-9f8e7d6c-1234abcd.xml\<close>.
\<close>

theorem first_occurrence_rewritten:
  "map (candidateName collidingEnv plainParser)
     (fst (extractZipStreaming (yauzl_open collidingEnv ''/in/a.zip'') ''/in/a.zip'' noOptions)) =
     [''a.xml'', ''a.xml'', ''a-9f8e7d6c.xml''] \<and>
   handedNames 0 (snd (tryProcessZipFile collidingEnv ''/in/a.zip'' exampleConfig plainParser world0)) =
     [''a.xml'', ''a-9f8e7d6c.xml'', ''a-9f8e7d6c-1234abcd.xml''] \<and>
   attemptFresh collidingEnv ''/in/a.zip'' exampleConfig plainParser world0"
  apply (intro conjI)
    apply (simp add: collidingEnv_def name_defs eval_defs)
   apply (simp add: collidingEnv_def name_defs eval_defs)
  apply (simp add: collidingEnv_def name_defs eval_defs)
  done

text \<open>
  Claim C7, amended. Within one archive attempt, when the loop has processed the items
  \<open>pre\<close> and the next item \<open>f\<close> is kept: the used-name set is exactly the set of names
  given out so far in the attempt. A candidate name that is not in it passes through
  deduplication unchanged, and no \<open>uuid()\<close> is drawn. A candidate name that is in it is
  rewritten with one fresh call of \<open>uuid()\<close>: \<open>-\<close> and the first eight characters of
  what that call returns (eight hexadecimal digits, when it returns a UUID) are
  inserted immediately before the last \<open>.\<close> of the name, or appended when it has no
  \<open>.\<close>. The name deduplication returns is the name the file is given.
  And if every disambiguated name generated during the attempt was not in the used-name
  set when it was generated, the names given out are pairwise distinct, and so are the
  names of all files handed to the uploader in the attempt.
\<close>

theorem names_within_attempt:
  assumes items: "fst (extractZipStreaming (yauzl_open E zp) zp noOptions) = pre @ f # rest"
      and pre: "processFiles E cfg parser pre None (initialLocals E cfg w0)
                  (w0\<lparr>uuid_calls := uuid_calls w0 + 1, opened := opened w0 @ [zp]\<rparr>) = (Inr st, w)"
      and k: "kept E parser f"
      and u: "isUuid (uuid E (uuid_calls w))"
  shows "usedFilenames st = set (givenNames (length (handed_off w0)) w st) \<and>
     (candidateName E parser f \<notin> usedFilenames st \<longrightarrow>
        dedupe E (candidateName E parser f) st w = (candidateName E parser f, w)) \<and>
     (candidateName E parser f \<in> usedFilenames st \<longrightarrow>
        length (take 8 (uuid E (uuid_calls w))) = 8 \<and>
        list_all isHexDigit (take 8 (uuid E (uuid_calls w))) \<and>
        (if CHR ''.'' \<in> set (candidateName E parser f)
         then \<exists>base ext. candidateName E parser f = base @ ''.'' @ ext \<and> CHR ''.'' \<notin> set ext \<and>
                dedupe E (candidateName E parser f) st w =
                  (base @ ''-'' @ take 8 (uuid E (uuid_calls w)) @ ''.'' @ ext,
                   w\<lparr>uuid_calls := uuid_calls w + 1\<rparr>)
         else dedupe E (candidateName E parser f) st w =
                (candidateName E parser f @ ''-'' @ take 8 (uuid E (uuid_calls w)),
                 w\<lparr>uuid_calls := uuid_calls w + 1\<rparr>))) \<and>
     (\<forall>st' w'. processFile E cfg parser f st w = (Inr st', w') \<longrightarrow>
        givenNames (length (handed_off w0)) w' st' =
          givenNames (length (handed_off w0)) w st @ [fst (dedupe E (candidateName E parser f) st w)]) \<and>
     (attemptFresh E zp cfg parser w0 \<longrightarrow>
        distinct (givenNames (length (handed_off w0)) w st @
                  [fst (dedupe E (candidateName E parser f) st w)]) \<and>
        distinct (handedNames (length (handed_off w0)) (snd (tryProcessZipFile E zp cfg parser w0))))"
proof -
  define n where "n = length (handed_off w0)"
  define st0 where "st0 = initialLocals E cfg w0"
  define w2 where "w2 = w0\<lparr>uuid_calls := uuid_calls w0 + 1, opened := opened w0 @ [zp]\<rparr>"
  have n0: "n \<le> length (handed_off w2)" by (simp add: n_def w2_def)
  have g0: "givenNames n w2 st0 = []"
    by (simp add: givenNames_def assignedSince_def n_def w2_def st0_def initialLocals_def)
  have u0: "usedFilenames st0 = set (givenNames n w2 st0)"
    unfolding g0 by (simp add: st0_def initialLocals_def)
  have d0: "distinct (givenNames n w2 st0)" unfolding g0 by simp
  note run = pre[folded st0_def w2_def]
  from processFiles_names[OF run n0 u0]
  have n1: "n \<le> length (handed_off w)" and 1: "usedFilenames st = set (givenNames n w st)"
    by simp_all
  have 2: "candidateName E parser f \<notin> usedFilenames st \<longrightarrow>
        dedupe E (candidateName E parser f) st w = (candidateName E parser f, w)"
    by (simp add: dedupe_unused)
  have 3: "candidateName E parser f \<in> usedFilenames st \<longrightarrow>
        length (take 8 (uuid E (uuid_calls w))) = 8 \<and>
        list_all isHexDigit (take 8 (uuid E (uuid_calls w))) \<and>
        (if CHR ''.'' \<in> set (candidateName E parser f)
         then \<exists>base ext. candidateName E parser f = base @ ''.'' @ ext \<and> CHR ''.'' \<notin> set ext \<and>
                dedupe E (candidateName E parser f) st w =
                  (base @ ''-'' @ take 8 (uuid E (uuid_calls w)) @ ''.'' @ ext,
                   w\<lparr>uuid_calls := uuid_calls w + 1\<rparr>)
         else dedupe E (candidateName E parser f) st w =
                (candidateName E parser f @ ''-'' @ take 8 (uuid E (uuid_calls w)),
                 w\<lparr>uuid_calls := uuid_calls w + 1\<rparr>))"
    using dedupe_used[of "candidateName E parser f" st E w] isUuid_head[OF u] by blast
  have 4: "\<forall>st' w'. processFile E cfg parser f st w = (Inr st', w') \<longrightarrow>
        givenNames n w' st' = givenNames n w st @ [fst (dedupe E (candidateName E parser f) st w)]"
    using processFile_given[OF k _ n1] by blast
  have 5: "attemptFresh E zp cfg parser w0 \<longrightarrow>
        distinct (givenNames n w st @ [fst (dedupe E (candidateName E parser f) st w)]) \<and>
        distinct (handedNames n (snd (tryProcessZipFile E zp cfg parser w0)))"
  proof
    assume fr: "attemptFresh E zp cfg parser w0"
    then have fr': "disambiguatorsFresh E cfg parser (pre @ f # rest) st0 w2"
      using items by (simp add: attemptFresh_def st0_def w2_def)
    note inv = processFiles_fresh[OF fr' n0 u0 d0 run, THEN conjunct2, rule_format, OF refl]
    from inv have d: "distinct (givenNames n w st)" by (rule conjunct2[THEN conjunct2, THEN conjunct1])
    from inv have fr1: "disambiguatorsFresh E cfg parser (f # rest) st w"
      by (rule conjunct2[THEN conjunct2, THEN conjunct2])
    from fresh_name[OF fr1 k] 1 d
    have "distinct (givenNames n w st @ [fst (dedupe E (candidateName E parser f) st w)])"
      by simp
    with attempt_distinct[OF fr]
    show "distinct (givenNames n w st @ [fst (dedupe E (candidateName E parser f) st w)]) \<and>
        distinct (handedNames n (snd (tryProcessZipFile E zp cfg parser w0)))"
      by (simp add: n_def)
  qed
  from 1 2 3 4 5 show ?thesis unfolding n_def by blast
qed

text \<open>
  Two entries named \<open>a.xml\<close>: the first passes unchanged, the second is rewritten
  before its \<open>.\<close>, and the two names given are distinct.
\<close>

theorem names_within_attempt_witness:
  "processFiles dupEnv exampleConfig plainParser [dupFirst] None (initialLocals dupEnv exampleConfig world0)
      (world0\<lparr>uuid_calls := uuid_calls world0 + 1, opened := opened world0 @ [''/in/a.zip'']\<rparr>) =
     (Inr afterFirst, openedWorld) \<and>
   dedupe dupEnv ''a.xml'' (initialLocals dupEnv exampleConfig world0)
      (world0\<lparr>uuid_calls := uuid_calls world0 + 1, opened := opened world0 @ [''/in/a.zip'']\<rparr>) =
     (''a.xml'', world0\<lparr>uuid_calls := uuid_calls world0 + 1, opened := opened world0 @ [''/in/a.zip'']\<rparr>) \<and>
   usedFilenames afterFirst = set (givenNames (length (handed_off world0)) openedWorld afterFirst) \<and>
   list_all isHexDigit ''9f8e7d6c'' \<and>
   (\<exists>base ext. ''a.xml'' = base @ ''.'' @ ext \<and> CHR ''.'' \<notin> set ext \<and>
      dedupe dupEnv ''a.xml'' afterFirst openedWorld =
        (base @ ''-'' @ ''9f8e7d6c'' @ ''.'' @ ext, openedWorld\<lparr>uuid_calls := 2\<rparr>)) \<and>
   (\<exists>st' w'. processFile dupEnv exampleConfig plainParser dupSecond afterFirst openedWorld = (Inr st', w') \<and>
      givenNames (length (handed_off world0)) w' st' =
        givenNames (length (handed_off world0)) openedWorld afterFirst @
          [fst (dedupe dupEnv ''a.xml'' afterFirst openedWorld)]) \<and>
   distinct (givenNames (length (handed_off world0)) openedWorld afterFirst @
             [fst (dedupe dupEnv ''a.xml'' afterFirst openedWorld)]) \<and>
   distinct (handedNames (length (handed_off world0))
      (snd (tryProcessZipFile dupEnv ''/in/a.zip'' exampleConfig plainParser world0)))"
proof -
  let ?w2 = "world0\<lparr>uuid_calls := uuid_calls world0 + 1, opened := opened world0 @ [''/in/a.zip'']\<rparr>"
  let ?st0 = "initialLocals dupEnv exampleConfig world0"
  have items: "fst (extractZipStreaming (yauzl_open dupEnv ''/in/a.zip'') ''/in/a.zip'' noOptions) =
      [dupFirst] @ dupSecond # []"
    by (simp add: dupEnv_def dupFirst_def dupSecond_def eval_defs)
  have items0: "fst (extractZipStreaming (yauzl_open dupEnv ''/in/a.zip'') ''/in/a.zip'' noOptions) =
      [] @ dupFirst # [dupSecond]"
    using items by simp
  have pre: "processFiles dupEnv exampleConfig plainParser [dupFirst] None ?st0 ?w2 =
      (Inr afterFirst, openedWorld)"
    by (simp add: dupEnv_def dupFirst_def afterFirst_def openedWorld_def name_defs eval_defs)
  have pre0: "processFiles dupEnv exampleConfig plainParser [] None ?st0 ?w2 = (Inr ?st0, ?w2)"
    by simp
  have k: "kept dupEnv plainParser dupSecond" by (simp add: kept_def plainParser_def)
  have k0: "kept dupEnv plainParser dupFirst" by (simp add: kept_def plainParser_def)
  have u: "isUuid (uuid dupEnv (uuid_calls openedWorld))"
    by (simp add: isUuid_def isHexDigit_def dupEnv_def exampleEnv_def openedWorld_def uuidB_def)
  have u0: "isUuid (uuid dupEnv (uuid_calls ?w2))"
    by (simp add: isUuid_def isHexDigit_def dupEnv_def exampleEnv_def world0_def uuidB_def)
  have c: "candidateName dupEnv plainParser dupSecond = ''a.xml''"
    by (simp add: candidateName_def plainParser_def dupSecond_def)
  have c0: "candidateName dupEnv plainParser dupFirst = ''a.xml''"
    by (simp add: candidateName_def plainParser_def dupFirst_def)
  have used: "''a.xml'' \<in> usedFilenames afterFirst" by (simp add: afterFirst_def)
  have unused: "''a.xml'' \<notin> usedFilenames ?st0" by (simp add: initialLocals_def)
  have dot: "CHR ''.'' \<in> set ''a.xml''" by simp
  have fr: "attemptFresh dupEnv ''/in/a.zip'' exampleConfig plainParser world0"
    by (simp add: dupEnv_def name_defs eval_defs)
  have pf: "\<exists>st' w'. processFile dupEnv exampleConfig plainParser dupSecond afterFirst openedWorld = (Inr st', w')"
    by (simp add: dupEnv_def dupSecond_def afterFirst_def openedWorld_def name_defs eval_defs)
  then obtain st' w' where
    pf': "processFile dupEnv exampleConfig plainParser dupSecond afterFirst openedWorld = (Inr st', w')"
    by blast
  note A = names_within_attempt[OF items pre k u, unfolded c]
  note B = names_within_attempt[OF items0 pre0 k0 u0, unfolded c0]
  from B unused have b2: "dedupe dupEnv ''a.xml'' ?st0 ?w2 = (''a.xml'', ?w2)" by blast
  from A have a1: "usedFilenames afterFirst =
      set (givenNames (length (handed_off world0)) openedWorld afterFirst)"
    by (rule conjunct1)
  have head: "take 8 (uuid dupEnv (uuid_calls openedWorld)) = ''9f8e7d6c''"
    by (simp add: dupEnv_def exampleEnv_def openedWorld_def uuidB_def)
  have next_call: "openedWorld\<lparr>uuid_calls := uuid_calls openedWorld + 1\<rparr> = openedWorld\<lparr>uuid_calls := 2\<rparr>"
    by (simp add: openedWorld_def)
  from A[THEN conjunct2, THEN conjunct2, THEN conjunct1, THEN mp, OF used]
  have a3': "list_all isHexDigit ''9f8e7d6c'' \<and>
      (if CHR ''.'' \<in> set ''a.xml''
       then \<exists>base ext. ''a.xml'' = base @ ''.'' @ ext \<and> CHR ''.'' \<notin> set ext \<and>
         dedupe dupEnv ''a.xml'' afterFirst openedWorld =
           (base @ ''-'' @ ''9f8e7d6c'' @ ''.'' @ ext, openedWorld\<lparr>uuid_calls := 2\<rparr>)
       else dedupe dupEnv ''a.xml'' afterFirst openedWorld =
           (''a.xml'' @ ''-'' @ ''9f8e7d6c'', openedWorld\<lparr>uuid_calls := 2\<rparr>))"
    unfolding head next_call by (rule conjunct2)
  then have a3: "list_all isHexDigit ''9f8e7d6c'' \<and>
      (\<exists>base ext. ''a.xml'' = base @ ''.'' @ ext \<and> CHR ''.'' \<notin> set ext \<and>
         dedupe dupEnv ''a.xml'' afterFirst openedWorld =
           (base @ ''-'' @ ''9f8e7d6c'' @ ''.'' @ ext, openedWorld\<lparr>uuid_calls := 2\<rparr>))"
    by (simp only: dot if_True)
  from A pf' have "givenNames (length (handed_off world0)) w' st' =
        givenNames (length (handed_off world0)) openedWorld afterFirst @
          [fst (dedupe dupEnv ''a.xml'' afterFirst openedWorld)]"
    by blast
  with pf' have a4: "\<exists>st' w'. processFile dupEnv exampleConfig plainParser dupSecond afterFirst openedWorld = (Inr st', w') \<and>
      givenNames (length (handed_off world0)) w' st' =
        givenNames (length (handed_off world0)) openedWorld afterFirst @
          [fst (dedupe dupEnv ''a.xml'' afterFirst openedWorld)]"
    by blast
  from A fr have a5: "distinct (givenNames (length (handed_off world0)) openedWorld afterFirst @
             [fst (dedupe dupEnv ''a.xml'' afterFirst openedWorld)])"
    and a6: "distinct (handedNames (length (handed_off world0))
      (snd (tryProcessZipFile dupEnv ''/in/a.zip'' exampleConfig plainParser world0)))"
    by blast+
  show ?thesis
    using pre b2 a1 a3 a4 a5 a6 by blast
qed

end
